theory Spec2Isabelle
  imports Main
begin

section \<open>Indentation normalisation\<close>

text \<open>
  Embedding of \<^verbatim>\<open>src/net_parser/config/BaseConfigParser.py\<close>.  Python strings are
  \<^typ>\<open>string\<close>, Python's unbounded integers are \<^typ>\<open>int\<close>, list positions and
  lengths are \<^typ>\<open>nat\<close>.
\<close>

subsection \<open>\<^verbatim>\<open>_get_indent\<close>\<close>

text \<open>
  \<^verbatim>\<open>line.lstrip(" ")\<close> removes leading space characters only (no tabs).
\<close>

definition lstrip_space :: "string \<Rightarrow> string" where
  "lstrip_space line = dropWhile (\<lambda>c. c = CHR '' '') line"

text \<open>\<^verbatim>\<open>indent_size = len(line) - len(line.lstrip(" "))\<close>\<close>

definition get_indent :: "string \<Rightarrow> nat" where
  "get_indent line = length line - length (lstrip_space line)"

subsection \<open>\<^verbatim>\<open>fix_indents\<close>: the depth loop\<close>

text \<open>
  The first loop of \<^verbatim>\<open>fix_indents\<close>, for \<^verbatim>\<open>i in range(len(indent_map))\<close>, with
  the list \<^verbatim>\<open>fixed_indent_map\<close> as accumulator.  \<^verbatim>\<open>fixed_indent_map[-1]\<close> is
  \<^term>\<open>last fixed\<close>; it is read only for \<open>i > 0\<close>, when the accumulator holds
  \<open>i\<close> entries.  The three comparisons of the \<^verbatim>\<open>if/elif/elif\<close> chain are kept
  in the order of the source; they are exhaustive on integers.
\<close>

function fix_loop :: "nat list \<Rightarrow> nat \<Rightarrow> int list \<Rightarrow> int list" where
  "fix_loop indent_map i fixed =
     (if i < length indent_map then
        if i = 0 then fix_loop indent_map (i + 1) (fixed @ [0])
        else if indent_map ! i = 0 then fix_loop indent_map (i + 1) (fixed @ [0])
        else if indent_map ! i = indent_map ! (i - 1) then
          fix_loop indent_map (i + 1) (fixed @ [last fixed])
        else if indent_map ! i > indent_map ! (i - 1) then
          fix_loop indent_map (i + 1) (fixed @ [last fixed + 1])
        else if indent_map ! i < indent_map ! (i - 1) then
          fix_loop indent_map (i + 1) (fixed @ [last fixed - 1])
        else fix_loop indent_map (i + 1) fixed
      else fixed)"
  by pat_completeness auto
termination
  by (relation "measure (\<lambda>(indent_map, i, fixed). length indent_map - i)") auto

declare fix_loop.simps [simp del]

text \<open>
  \<^verbatim>\<open>indent_map = list(map(self._get_indent, self.config_lines_str))\<close> and the value
  of \<^verbatim>\<open>fixed_indent_map\<close> when the first loop ends.
\<close>

definition indent_map_of :: "string list \<Rightarrow> nat list" where
  "indent_map_of config_lines_str = map get_indent config_lines_str"

definition fixed_indent_map :: "string list \<Rightarrow> int list" where
  "fixed_indent_map config_lines_str = fix_loop (indent_map_of config_lines_str) 0 []"

subsection \<open>\<^verbatim>\<open>fix_indents\<close>: rewriting the lines\<close>





subsection \<open>The loop as a recursion on the list\<close>

text \<open>
  The depth of a line from the raw indent and the depth of the line before it.
\<close>

definition next_depth :: "nat \<Rightarrow> int \<Rightarrow> nat \<Rightarrow> int" where
  "next_depth prev_raw prev_fixed raw =
     (if raw = 0 then 0
      else if raw = prev_raw then prev_fixed
      else if raw > prev_raw then prev_fixed + 1
      else prev_fixed - 1)"

section \<open>Patterns, lines and the parser object\<close>

subsection \<open>The \<^verbatim>\<open>re\<close> library\<close>

text \<open>
  Python's \<^verbatim>\<open>re\<close> module is outside the repository.  A match object is taken by
  what the code reads from it: \<^verbatim>\<open>m.group(0)\<close>, \<^verbatim>\<open>m.group(i)\<close> and
  \<^verbatim>\<open>m.group(name)\<close>, where a group that took no part in the match is Python's
  \<^verbatim>\<open>None\<close>.
\<close>

record re_match =
  whole :: string
  by_index :: "nat \<Rightarrow> string option"
  by_name :: "string \<Rightarrow> string option"

text \<open>
  A compiled pattern is taken by its behaviour: \<^verbatim>\<open>pattern.groups\<close>, the keys of
  \<^verbatim>\<open>pattern.groupindex\<close> in their order, \<^verbatim>\<open>pattern.search(text)\<close> and
  \<^verbatim>\<open>pattern.match(text)\<close>.
\<close>

record re_pattern =
  p_groups :: nat
  p_groupindex :: "string list"
  p_search :: "string \<Rightarrow> re_match option"
  p_match :: "string \<Rightarrow> re_match option"

text \<open>
  \<^verbatim>\<open>re.compile(pattern=s, flags=f)\<close> on a string is a parameter of the model, of this
  type; \<^term>\<open>None\<close> stands for the exception \<^verbatim>\<open>re.compile\<close> raises on a string
  that is not a regular expression.
\<close>

type_synonym re_compile = "string \<Rightarrow> nat \<Rightarrow> re_pattern option"

definition re_MULTILINE :: nat where
  "re_MULTILINE = 8"

text \<open>\<^verbatim>\<open>m.groupdict()\<close>: every named group of the pattern with what it captured.\<close>

definition groupdict :: "re_pattern \<Rightarrow> re_match \<Rightarrow> (string \<times> string option) list" where
  "groupdict p m = map (\<lambda>k. (k, by_name m k)) (p_groupindex p)"

subsection \<open>Python values\<close>

text \<open>
  The argument \<^verbatim>\<open>regex\<close> of the query functions is \<^verbatim>\<open>None\<close>, a string or a
  compiled pattern; the argument \<^verbatim>\<open>group\<close> is \<^verbatim>\<open>None\<close>, an integer or a string.
\<close>

datatype regex_arg = RNone | RStr string | RPat re_pattern

datatype group_arg = GNone | GInt int | GStr string

datatype log_level = DEBUG | INFO | WARNING | ERROR

type_synonym log_entry = "log_level \<times> string"

datatype error = AttributeError | TypeError | UnboundLocalError

text \<open>
  A dictionary of named groups: a key that is present maps to a string or to
  Python's \<^verbatim>\<open>None\<close> (\<^term>\<open>Some None\<close>); an absent key is \<^term>\<open>None\<close>.
\<close>

type_synonym entry = "string \<rightharpoonup> string option"

text \<open>
  Modelled from the spec: the class \<^verbatim>\<open>BaseConfigLine\<close> is imported from
  \<^verbatim>\<open>net_parser.config\<close> and is not among the sources.  The spec's ConfigLine has an
  ordinal, a text and an ordered sequence of owned children; a node is a parent when it
  is classified as having children.
\<close>

datatype config_line =
  ConfigLine (number: nat) (line_text: string) (children: "config_line list")

definition get_children :: "config_line \<Rightarrow> config_line list" where
  "get_children x = children x"

definition is_parent :: "config_line \<Rightarrow> bool" where
  "is_parent x = (get_children x \<noteq> [])"

text \<open>
  What a query returns: \<^verbatim>\<open>None\<close>, a captured string, a dictionary of named groups
  (in the order of its keys), a value that only says that the line matched, or a line.
\<close>

datatype pyval =
  PNone | PStr string | PDict "(string \<times> string option) list" | PTrue | PLine config_line

text \<open>Truth value of a Python object, as \<^verbatim>\<open>if result:\<close> tests it.\<close>

fun truthy :: "pyval \<Rightarrow> bool" where
  "truthy PNone = False"
| "truthy (PStr s) = (s \<noteq> [])"
| "truthy (PDict d) = (d \<noteq> [])"
| "truthy PTrue = True"
| "truthy (PLine x) = True"

fun opt_to_py :: "string option \<Rightarrow> pyval" where
  "opt_to_py None = PNone"
| "opt_to_py (Some s) = PStr s"

subsection \<open>Queries on one line\<close>

text \<open>
  Modelled from the spec: the pattern a line query works with.  A pattern given as
  text is compiled (with the default flags of \<^verbatim>\<open>_compile_regex\<close>); a compile error
  yields a null pattern, and a null pattern matches nothing.
\<close>

fun to_pattern :: "re_compile \<Rightarrow> regex_arg \<Rightarrow> re_pattern option" where
  "to_pattern compile RNone = None"
| "to_pattern compile (RStr s) = compile s re_MULTILINE"
| "to_pattern compile (RPat p) = Some p"

text \<open>
  Modelled from the spec: \<^verbatim>\<open>BaseConfigLine.re_search(regex, group)\<close> is not among the
  sources.  It tests the node's text against the pattern and returns none when there is
  no match.  On a match: with \<^verbatim>\<open>group\<close> unspecified the node counts as matching; with a
  group name or index the result is the captured value of that group; with the sentinel
  \<^verbatim>\<open>"ALL"\<close> it is the full named-group mapping, unmatched groups mapping to none.
  The spec is silent on a group the pattern does not have; the model returns none there.
\<close>

fun group_value :: "re_pattern \<Rightarrow> re_match \<Rightarrow> group_arg \<Rightarrow> pyval" where
  "group_value p m GNone = PTrue"
| "group_value p m (GInt i) =
     (if i = 0 then PStr (whole m)
      else if 1 \<le> i \<and> nat i \<le> p_groups p then opt_to_py (by_index m (nat i))
      else PNone)"
| "group_value p m (GStr g) =
     (if g = ''ALL'' then PDict (groupdict p m)
      else if g \<in> set (p_groupindex p) then opt_to_py (by_name m g)
      else PNone)"

definition re_search :: "re_compile \<Rightarrow> config_line \<Rightarrow> regex_arg \<Rightarrow> group_arg \<Rightarrow> pyval" where
  "re_search compile line regex grp =
     (case to_pattern compile regex of
        None \<Rightarrow> PNone
      | Some p \<Rightarrow>
          (case p_search p (line_text line) of
             None \<Rightarrow> PNone
           | Some m \<Rightarrow> group_value p m grp))"

text \<open>
  Modelled from the spec: \<^verbatim>\<open>BaseConfigLine.re_match(regex)\<close> is not among the sources;
  it says whether the node matches the pattern.
\<close>

definition re_match :: "re_compile \<Rightarrow> config_line \<Rightarrow> regex_arg \<Rightarrow> bool" where
  "re_match compile line regex =
     (case to_pattern compile regex of
        None \<Rightarrow> False
      | Some p \<Rightarrow> p_match p (line_text line) \<noteq> None)"

text \<open>
  Modelled from the spec: \<^verbatim>\<open>BaseConfigLine.re_search_children(regex, group)\<close> is not
  among the sources; it searches only the node's direct children and returns the results
  of the children that match, in their order.
\<close>

definition re_search_children ::
  "re_compile \<Rightarrow> config_line \<Rightarrow> regex_arg \<Rightarrow> group_arg \<Rightarrow> pyval list" where
  "re_search_children compile line regex grp =
     filter (\<lambda>r. r \<noteq> PNone) (map (\<lambda>c. re_search compile c regex grp) (get_children line))"

subsection \<open>The parser object\<close>

text \<open>
  The attributes of \<^verbatim>\<open>BaseConfigParser\<close> that the query functions read.  An attribute
  that no statement has assigned is \<^term>\<open>None\<close>: reading it raises
  \<^verbatim>\<open>AttributeError\<close>.  The class body defines \<^verbatim>\<open>PATTERN_TYPE\<close> only.
\<close>

record base_config_parser =
  verbosity :: int
  lines :: "config_line list"
  minimal_results :: "bool option"

text \<open>
  \<^verbatim>\<open>__init__\<close> assigns \<^verbatim>\<open>verbosity\<close>, \<^verbatim>\<open>logger\<close>, \<^verbatim>\<open>_config\<close> and
  \<^verbatim>\<open>lines = []\<close>, and nothing else.
\<close>

definition init :: "int \<Rightarrow> base_config_parser" where
  "init v = \<lparr>verbosity = v, lines = [], minimal_results = None\<rparr>"

section \<open>The query functions of \<^verbatim>\<open>BaseConfigParser\<close>\<close>

text \<open>
  The logger is threaded as a value: every function that logs returns, next to its
  result, the list of the records it has written, in order.  A record is its level and
  the fixed part of its message.
\<close>

subsection \<open>\<^verbatim>\<open>_compile_regex\<close>\<close>

text \<open>
  \<^verbatim>\<open>re.compile\<close> on each kind of argument: a string goes to the library; a compiled
  pattern is returned as it is when no flags are given and is refused with flags;
  \<^verbatim>\<open>None\<close> is refused.  \<^term>\<open>None\<close> stands for the exception raised.
\<close>

fun py_re_compile :: "re_compile \<Rightarrow> regex_arg \<Rightarrow> nat \<Rightarrow> re_pattern option" where
  "py_re_compile compile (RStr s) flags = compile s flags"
| "py_re_compile compile (RPat p) flags = (if flags = 0 then Some p else None)"
| "py_re_compile compile RNone flags = None"

text \<open>
  \<^verbatim>\<open>pattern = None; try: pattern = re.compile(...) except Exception: logger.error(...)\<close>,
  then \<^verbatim>\<open>return pattern\<close>.
\<close>

definition compile_regex :: "re_compile \<Rightarrow> regex_arg \<Rightarrow> nat \<Rightarrow> regex_arg \<times> log_entry list" where
  "compile_regex compile regex flags =
     (case py_re_compile compile regex flags of
        Some p \<Rightarrow> (RPat p, [])
      | None \<Rightarrow> (RNone, [(ERROR, ''Error while compiling regex'')]))"

subsection \<open>\<^verbatim>\<open>find_objects\<close>\<close>

text \<open>\<^verbatim>\<open>isinstance(regex, self.PATTERN_TYPE)\<close>\<close>

fun is_pattern :: "regex_arg \<Rightarrow> bool" where
  "is_pattern (RPat p) = True"
| "is_pattern r = False"

text \<open>
  The loop \<^verbatim>\<open>for line in self.lines\<close>, with the lists \<^verbatim>\<open>lines\<close> and
  \<^verbatim>\<open>results\<close> as accumulators.
\<close>

fun find_loop ::
  "re_compile \<Rightarrow> regex_arg \<Rightarrow> group_arg \<Rightarrow> config_line list \<Rightarrow>
   config_line list \<Rightarrow> pyval list \<Rightarrow> config_line list \<times> pyval list" where
  "find_loop compile pattern grp [] found results = (found, results)"
| "find_loop compile pattern grp (line # rest) found results =
     (let result = re_search compile line pattern grp in
      if truthy result
      then find_loop compile pattern grp rest (found @ [line]) (results @ [result])
      else find_loop compile pattern grp rest found results)"

definition find_objects ::
  "re_compile \<Rightarrow> base_config_parser \<Rightarrow> regex_arg \<Rightarrow> nat \<Rightarrow> group_arg \<Rightarrow>
   pyval list \<times> log_entry list" where
  "find_objects compile self regex flags grp =
     (case (if \<not> is_pattern regex then compile_regex compile regex flags else (regex, [])) of
        (pattern, log1) \<Rightarrow>
          (case find_loop compile pattern grp (lines self) [] [] of
             (found, results) \<Rightarrow>
               if grp = GNone
               then (map PLine found, log1 @ [(DEBUG, ''Matched lines for query'')])
               else (results, log1)))"

text \<open>
  The compiled pattern the scan of \<^verbatim>\<open>find_objects\<close> works with, if there is one:
  \<^verbatim>\<open>regex\<close> itself when it is a compiled pattern, what \<^verbatim>\<open>re.compile\<close> makes of
  it otherwise.
\<close>

definition effective_pattern :: "re_compile \<Rightarrow> regex_arg \<Rightarrow> nat \<Rightarrow> re_pattern option" where
  "effective_pattern compile regex flags =
     (case regex of RPat p \<Rightarrow> Some p | r \<Rightarrow> py_re_compile compile r flags)"

subsection \<open>\<^verbatim>\<open>get_section_by_parents\<close>\<close>

text \<open>
  The loop \<^verbatim>\<open>for parent in parents\<close> with the variable \<^verbatim>\<open>section\<close>.  The list
  comprehension keeps, in order, \<^verbatim>\<open>x.get_children()\<close> of every \<^verbatim>\<open>x\<close> with
  \<^verbatim>\<open>bool(x.is_parent and x.re_match(parent))\<close>.
\<close>

fun get_section_loop ::
  "re_compile \<Rightarrow> regex_arg list \<Rightarrow> config_line list \<Rightarrow> config_line list \<times> log_entry list" where
  "get_section_loop compile [] section = (section, [])"
| "get_section_loop compile (parent # rest) section =
     (let section' = map get_children
                       (filter (\<lambda>x. is_parent x \<and> re_match compile x parent) section) in
      if length section' = 1 then get_section_loop compile rest (section' ! 0)
      else if length section' > 1 then
        ([], [(ERROR, ''Multiple lines matched parent statement. Cannot determine config section.'')])
      else
        ([], [(ERROR, ''No lines matched parent statement. Cannot determine config section.'')]))"

definition get_section_by_parents ::
  "re_compile \<Rightarrow> base_config_parser \<Rightarrow> regex_arg list \<Rightarrow> config_line list \<times> log_entry list" where
  "get_section_by_parents compile self parents = get_section_loop compile parents (lines self)"

subsection \<open>\<^verbatim>\<open>match_to_dict\<close>\<close>

text \<open>\<^verbatim>\<open>entry.update(d)\<close>: the items of \<^verbatim>\<open>d\<close> are stored in their order.\<close>

definition dict_update :: "entry \<Rightarrow> (string \<times> string option) list \<Rightarrow> entry" where
  "dict_update entry kvs = fold (\<lambda>(k, v) e. e(k \<mapsto> v)) kvs entry"

text \<open>
  \<^verbatim>\<open>entry.update(x)\<close> for the value a line query returned: a dictionary is merged;
  a line, a string or \<^verbatim>\<open>True\<close> is no mapping, and \<^verbatim>\<open>dict.update\<close> raises.
\<close>

fun update_from :: "entry \<Rightarrow> pyval \<Rightarrow> error + entry" where
  "update_from entry (PDict d) = Inr (dict_update entry d)"
| "update_from entry v = Inl TypeError"

text \<open>
  \<^verbatim>\<open>{k: None for k in pattern.groupindex.keys()}\<close>: only a compiled pattern has the
  attribute \<^verbatim>\<open>groupindex\<close>.
\<close>

fun none_dict :: "regex_arg \<Rightarrow> error + (string \<times> string option) list" where
  "none_dict (RPat p) = Inr (map (\<lambda>k. (k, None)) (p_groupindex p))"
| "none_dict r = Inl AttributeError"

text \<open>
  The branch taken when nothing matched: \<^verbatim>\<open>if self.minimal_results: continue\<close>,
  \<^verbatim>\<open>else: entry.update({k: None ...})\<close>.  Reading \<^verbatim>\<open>self.minimal_results\<close> comes
  first and raises when the attribute was never assigned.
\<close>

definition no_match_update :: "base_config_parser \<Rightarrow> regex_arg \<Rightarrow> entry \<Rightarrow> error + entry" where
  "no_match_update self pattern entry =
     (case minimal_results self of
        None \<Rightarrow> Inl AttributeError
      | Some True \<Rightarrow> Inr entry
      | Some False \<Rightarrow>
          (case none_dict pattern of
             Inl e \<Rightarrow> Inl e
           | Inr d \<Rightarrow> Inr (dict_update entry d)))"

text \<open>The loop \<^verbatim>\<open>for pattern in patterns\<close> with the dictionary \<^verbatim>\<open>entry\<close>.\<close>

fun match_to_dict_loop ::
  "re_compile \<Rightarrow> base_config_parser \<Rightarrow> config_line \<Rightarrow> regex_arg list \<Rightarrow> entry \<Rightarrow>
   error + entry" where
  "match_to_dict_loop compile self line [] entry = Inr entry"
| "match_to_dict_loop compile self line (pattern # rest) entry =
     (let match_result = re_search compile line pattern (GStr ''ALL'') in
      case (if match_result \<noteq> PNone then update_from entry match_result
            else no_match_update self pattern entry) of
        Inl e \<Rightarrow> Inl e
      | Inr entry' \<Rightarrow> match_to_dict_loop compile self line rest entry')"

definition match_to_dict ::
  "re_compile \<Rightarrow> base_config_parser \<Rightarrow> config_line \<Rightarrow> regex_arg list \<Rightarrow> error + entry" where
  "match_to_dict compile self line patterns =
     match_to_dict_loop compile self line patterns Map.empty"

subsection \<open>\<^verbatim>\<open>property_autoparse\<close>\<close>

text \<open>
  The loop \<^verbatim>\<open>for candidate in candidates\<close> with the list \<^verbatim>\<open>properties\<close>.  A
  candidate that is not a line has no method \<^verbatim>\<open>re_search\<close>.
\<close>

fun properties_loop ::
  "re_compile \<Rightarrow> base_config_parser \<Rightarrow> regex_arg list \<Rightarrow> pyval list \<Rightarrow> entry list \<Rightarrow>
   error + entry list" where
  "properties_loop compile self patterns [] properties = Inr properties"
| "properties_loop compile self patterns (PLine candidate # rest) properties =
     (case match_to_dict compile self candidate patterns of
        Inl e \<Rightarrow> Inl e
      | Inr entry \<Rightarrow> properties_loop compile self patterns rest (properties @ [entry]))"
| "properties_loop compile self patterns (v # rest) properties = Inl AttributeError"

text \<open>
  The result is \<^term>\<open>Inr None\<close> for Python's \<^verbatim>\<open>None\<close> and \<^term>\<open>Inr (Some ds)\<close>
  for a list of dictionaries.  \<^verbatim>\<open>find_objects\<close> is called with its default flags
  and no group.
\<close>

definition property_autoparse ::
  "re_compile \<Rightarrow> base_config_parser \<Rightarrow> regex_arg \<Rightarrow> regex_arg list \<Rightarrow>
   (error + entry list option) \<times> log_entry list" where
  "property_autoparse compile self candidate_pattern patterns =
     (case find_objects compile self candidate_pattern re_MULTILINE GNone of
        (candidates, log) \<Rightarrow>
          if length candidates \<noteq> 0 then
            (case properties_loop compile self patterns candidates [] of
               Inl e \<Rightarrow> (Inl e, log)
             | Inr properties \<Rightarrow> (Inr (Some properties), log))
          else (Inr None, log))"

subsection \<open>\<^verbatim>\<open>section_property_autoparse\<close>\<close>

text \<open>
  The argument \<^verbatim>\<open>parent\<close> is a line, or a string or compiled pattern; any other
  object (\<^term>\<open>ParentRegex RNone\<close>) passes neither \<^verbatim>\<open>isinstance\<close> test, so that
  \<^verbatim>\<open>candidates\<close> is unbound when \<^verbatim>\<open>len(candidates)\<close> reads it.
\<close>

datatype parent_arg = ParentLine config_line | ParentRegex regex_arg

text \<open>\<^verbatim>\<open>isinstance(parent, (str, self.PATTERN_TYPE))\<close>\<close>

fun is_str_or_pattern :: "parent_arg \<Rightarrow> bool" where
  "is_str_or_pattern (ParentRegex (RStr s)) = True"
| "is_str_or_pattern (ParentRegex (RPat p)) = True"
| "is_str_or_pattern parent = False"

text \<open>
  An element of the result: \<^verbatim>\<open>entry\<close>, or the tuple \<^verbatim>\<open>(candidate, entry)\<close> when
  \<^verbatim>\<open>return_with_line\<close> is set.
\<close>

datatype section_item = Entry entry | LineEntry config_line entry

text \<open>
  The inner loop \<^verbatim>\<open>for pattern in patterns\<close> for one candidate, on the dictionary
  \<^verbatim>\<open>entry\<close>: one update is merged, none goes by \<^verbatim>\<open>self.minimal_results\<close>, several
  are logged and nothing else is done.
\<close>

fun section_patterns_loop ::
  "re_compile \<Rightarrow> base_config_parser \<Rightarrow> config_line \<Rightarrow> regex_arg list \<Rightarrow> entry \<Rightarrow>
   (error + entry) \<times> log_entry list" where
  "section_patterns_loop compile self candidate [] entry = (Inr entry, [])"
| "section_patterns_loop compile self candidate (pattern # rest) entry =
     (let updates = re_search_children compile candidate pattern (GStr ''ALL'') in
      if length updates = 1 then
        (case update_from entry (updates ! 0) of
           Inl e \<Rightarrow> (Inl e, [])
         | Inr entry' \<Rightarrow> section_patterns_loop compile self candidate rest entry')
      else if length updates = 0 then
        (case no_match_update self pattern entry of
           Inl e \<Rightarrow> (Inl e, [])
         | Inr entry' \<Rightarrow> section_patterns_loop compile self candidate rest entry')
      else
        (case section_patterns_loop compile self candidate rest entry of
           (r, log) \<Rightarrow> (r, (WARNING, ''Multiple possible updates found'') # log)))"

text \<open>
  The start of the loop body for one candidate: \<^verbatim>\<open>entry = {}\<close>, and, when
  \<^verbatim>\<open>parent\<close> is a string or a pattern,
  \<^verbatim>\<open>entry.update(self.match_to_dict(line=candidate, patterns=[parent]))\<close>.
\<close>

fun parent_entry ::
  "re_compile \<Rightarrow> base_config_parser \<Rightarrow> parent_arg \<Rightarrow> config_line \<Rightarrow> error + entry" where
  "parent_entry compile self (ParentLine l) candidate = Inr Map.empty"
| "parent_entry compile self (ParentRegex r) candidate =
     (if is_str_or_pattern (ParentRegex r) then
        (case match_to_dict compile self candidate [r] of
           Inl e \<Rightarrow> Inl e
         | Inr d \<Rightarrow> Inr (Map.empty ++ d))
      else Inr Map.empty)"

text \<open>The dictionary of one candidate, with the records logged on the way.\<close>

definition candidate_entry ::
  "re_compile \<Rightarrow> base_config_parser \<Rightarrow> parent_arg \<Rightarrow> regex_arg list \<Rightarrow> config_line \<Rightarrow>
   (error + entry) \<times> log_entry list" where
  "candidate_entry compile self parent patterns candidate =
     (case parent_entry compile self parent candidate of
        Inl e \<Rightarrow> (Inl e, [])
      | Inr entry \<Rightarrow> section_patterns_loop compile self candidate patterns entry)"

text \<open>The loop \<^verbatim>\<open>for candidate in candidates\<close> with the list \<^verbatim>\<open>entries\<close>.\<close>

fun section_candidates_loop ::
  "re_compile \<Rightarrow> base_config_parser \<Rightarrow> parent_arg \<Rightarrow> regex_arg list \<Rightarrow> bool \<Rightarrow>
   pyval list \<Rightarrow> section_item list \<Rightarrow> (error + section_item list) \<times> log_entry list" where
  "section_candidates_loop compile self parent patterns return_with_line [] entries =
     (Inr entries, [])"
| "section_candidates_loop compile self parent patterns return_with_line
     (PLine candidate # rest) entries =
     (case candidate_entry compile self parent patterns candidate of
        (Inl e, log) \<Rightarrow> (Inl e, log)
      | (Inr entry, log) \<Rightarrow>
          (case section_candidates_loop compile self parent patterns return_with_line rest
                  (entries @ [if return_with_line then LineEntry candidate entry
                              else Entry entry]) of
             (r, log') \<Rightarrow> (r, log @ log')))"
| "section_candidates_loop compile self parent patterns return_with_line (v # rest) entries =
     (Inl AttributeError, [])"

text \<open>
  The candidates: \<^verbatim>\<open>[parent]\<close> for a line, \<^verbatim>\<open>self.find_objects(regex=parent)\<close> for
  a string or a pattern, unbound otherwise.
\<close>

fun section_candidates ::
  "re_compile \<Rightarrow> base_config_parser \<Rightarrow> parent_arg \<Rightarrow> error + pyval list \<times> log_entry list" where
  "section_candidates compile self (ParentLine l) = Inr ([PLine l], [])"
| "section_candidates compile self (ParentRegex r) =
     (if is_str_or_pattern (ParentRegex r)
      then Inr (find_objects compile self r re_MULTILINE GNone)
      else Inl UnboundLocalError)"

definition section_property_autoparse ::
  "re_compile \<Rightarrow> base_config_parser \<Rightarrow> parent_arg \<Rightarrow> regex_arg list \<Rightarrow> bool \<Rightarrow>
   (error + section_item list option) \<times> log_entry list" where
  "section_property_autoparse compile self parent patterns return_with_line =
     (case section_candidates compile self parent of
        Inl e \<Rightarrow> (Inl e, [])
      | Inr (candidates, log0) \<Rightarrow>
          if length candidates \<noteq> 0 then
            (case section_candidates_loop compile self parent patterns return_with_line
                    candidates [] of
               (Inl e, log) \<Rightarrow> (Inl e, log0 @ log)
             | (Inr entries, log) \<Rightarrow> (Inr (Some entries), log0 @ log))
          else (Inr None, log0))"

section \<open>Example configurations and patterns\<close>

text \<open>
  The pattern \<^verbatim>\<open>^<pre>(?P<g><body>)\<close> on a text of one line, where \<open>cap\<close> gives
  what the body captures from the text after the prefix, or \<^term>\<open>None\<close> when the body
  does not match there.  Anchored at the start, \<^verbatim>\<open>search\<close> and \<^verbatim>\<open>match\<close> agree.
\<close>

definition prefix_find :: "string \<Rightarrow> string \<Rightarrow> (string \<Rightarrow> string option) \<Rightarrow> string \<Rightarrow> re_match option" where
  "prefix_find pre g cap t =
     (if take (length pre) t = pre then
        (case cap (drop (length pre) t) of
           None \<Rightarrow> None
         | Some v \<Rightarrow>
             Some \<lparr>whole = pre @ v,
                   by_index = (\<lambda>i. if i = 1 then Some v else None),
                   by_name = (\<lambda>n. if n = g then Some v else None)\<rparr>)
      else None)"

definition prefix_pattern :: "string \<Rightarrow> string \<Rightarrow> (string \<Rightarrow> string option) \<Rightarrow> re_pattern" where
  "prefix_pattern pre g cap =
     \<lparr>p_groups = 1, p_groupindex = [g],
      p_search = prefix_find pre g cap, p_match = prefix_find pre g cap\<rparr>"

text \<open>\<^verbatim>\<open>^interface (?P<name>.*)\<close>, \<^verbatim>\<open>^interface (?P<name>.{3})\<close>,
  \<^verbatim>\<open>^ ip address (?P<ip>.*)\<close>, \<^verbatim>\<open>^ description ?(?P<desc>.*)\<close>,
  \<^verbatim>\<open>^interface Ethernet0/0(?P<rest>.*)\<close> and \<^verbatim>\<open>^hostname (?P<hostname>.*)\<close>.\<close>

definition pat_interface :: re_pattern where
  "pat_interface = prefix_pattern ''interface '' ''name'' Some"

definition pat_interface3 :: re_pattern where
  "pat_interface3 =
     prefix_pattern ''interface '' ''name'' (\<lambda>r. if length r < 3 then None else Some (take 3 r))"

definition pat_ip :: re_pattern where
  "pat_ip = prefix_pattern '' ip address '' ''ip'' Some"

definition pat_description :: re_pattern where
  "pat_description =
     prefix_pattern '' description'' ''desc''
       (\<lambda>r. case r of [] \<Rightarrow> Some [] | c # cs \<Rightarrow> Some (if c = CHR '' '' then cs else r))"

definition pat_eth0 :: re_pattern where
  "pat_eth0 = prefix_pattern ''interface Ethernet0/0'' ''rest'' Some"

definition pat_hostname :: re_pattern where
  "pat_hostname = prefix_pattern ''hostname '' ''hostname'' Some"

text \<open>
  A compiler that knows the five patterns by their text and raises on anything else,
  as \<^verbatim>\<open>re.compile\<close> does on \<^verbatim>\<open>(\<close>.
\<close>

definition example_compile :: re_compile where
  "example_compile s flags =
     (if s = ''^interface (?P<name>.*)'' then Some pat_interface
      else if s = ''^interface (?P<name>.{3})'' then Some pat_interface3
      else if s = ''^ ip address (?P<ip>.*)'' then Some pat_ip
      else if s = ''^ description ?(?P<desc>.*)'' then Some pat_description
      else if s = ''^hostname (?P<hostname>.*)'' then Some pat_hostname
      else None)"

text \<open>
  The configuration of the spec's end-to-end example, with a second address on the
  second interface and an empty description.
\<close>

definition line_desc :: config_line where
  "line_desc = ConfigLine 1 '' description Test'' []"

definition line_ip :: config_line where
  "line_ip = ConfigLine 2 '' ip address 10.0.0.1 255.255.255.0'' []"

definition line_eth0 :: config_line where
  "line_eth0 = ConfigLine 0 ''interface Ethernet0/0'' [line_desc, line_ip]"

text \<open>The match objects of \<^verbatim>\<open>^interface (?P<name>.*)\<close> and
  \<^verbatim>\<open>^interface (?P<name>.{3})\<close> on the first interface line.\<close>

definition match_eth0_all :: re_match where
  "match_eth0_all =
     \<lparr>whole = ''interface Ethernet0/0'',
      by_index = (\<lambda>i. if i = 1 then Some ''Ethernet0/0'' else None),
      by_name = (\<lambda>n. if n = ''name'' then Some ''Ethernet0/0'' else None)\<rparr>"

definition match_eth0_three :: re_match where
  "match_eth0_three =
     \<lparr>whole = ''interface Eth'',
      by_index = (\<lambda>i. if i = 1 then Some ''Eth'' else None),
      by_name = (\<lambda>n. if n = ''name'' then Some ''Eth'' else None)\<rparr>"

definition line_desc_empty :: config_line where
  "line_desc_empty = ConfigLine 4 '' description'' []"

definition line_ip_a :: config_line where
  "line_ip_a = ConfigLine 5 '' ip address 10.0.1.1 255.255.255.0'' []"

definition line_ip_b :: config_line where
  "line_ip_b = ConfigLine 6 '' ip address 10.0.2.1 255.255.255.0 secondary'' []"

definition line_eth1 :: config_line where
  "line_eth1 = ConfigLine 3 ''interface Ethernet0/1'' [line_desc_empty, line_ip_a, line_ip_b]"

definition example_parser :: base_config_parser where
  "example_parser =
     (init 4)\<lparr>lines := [line_eth0, line_desc, line_ip, line_eth1, line_desc_empty,
                        line_ip_a, line_ip_b]\<rparr>"

text \<open>The same parser after a caller has assigned \<^verbatim>\<open>minimal_results = False\<close>.\<close>

definition example_parser_full :: base_config_parser where
  "example_parser_full = example_parser\<lparr>minimal_results := Some False\<rparr>"

text \<open>
  A configuration of three levels, \<^verbatim>\<open>router bgp 65000\<close> with one address family and
  one network under it, and the patterns \<^verbatim>\<open>^router bgp (?P<asn>.*)\<close> and
  \<^verbatim>\<open>^ address-family (?P<family>.*)\<close>.
\<close>

definition line_net :: config_line where
  "line_net = ConfigLine 2 ''  network 10.0.0.0'' []"

definition line_af :: config_line where
  "line_af = ConfigLine 1 '' address-family ipv4'' [line_net]"

definition line_bgp :: config_line where
  "line_bgp = ConfigLine 0 ''router bgp 65000'' [line_af]"

definition bgp_parser :: base_config_parser where
  "bgp_parser = (init 4)\<lparr>lines := [line_bgp, line_af, line_net]\<rparr>"

definition pat_bgp :: re_pattern where
  "pat_bgp = prefix_pattern ''router bgp '' ''asn'' Some"

definition pat_af :: re_pattern where
  "pat_af = prefix_pattern '' address-family '' ''family'' Some"

text \<open>Raw lines whose indentation returns to the margin from depth 2, and raw lines
  that step back twice by less than they stepped in.\<close>

definition lines_reset :: "string list" where
  "lines_reset = [''a'', '' b'', ''  c'', ''d'']"

definition lines_bgp :: "string list" where
  "lines_bgp = [''router bgp 1'', '' address-family ipv4'', ''  network 10.0.0.0'', ''end'']"

definition lines_dedent :: "string list" where
  "lines_dedent = [''a'', ''    b'', ''  c'', '' d'']"

section \<open>Properties of the indentation normaliser\<close>

subsection \<open>The loop, one iteration at a time\<close>

lemma fix_loop_done: "\<not> i < length indent_map \<Longrightarrow> fix_loop indent_map i fixed = fixed"
  by (subst fix_loop.simps) simp

lemma fix_loop_unfold:
  "i < length indent_map \<Longrightarrow>
   fix_loop indent_map i fixed =
     fix_loop indent_map (Suc i)
       (fixed @ [if i = 0 then 0
                 else next_depth (indent_map ! (i - 1)) (last fixed) (indent_map ! i)])"
  by (subst fix_loop.simps) (simp add: next_depth_def)

lemma fix_loop_length:
  "i \<le> length indent_map \<Longrightarrow> length fixed = i \<Longrightarrow>
   length (fix_loop indent_map i fixed) = length indent_map"
proof (induction "length indent_map - i" arbitrary: i fixed)
  case 0
  then show ?case by (simp add: fix_loop_done)
next
  case (Suc n)
  then have lt: "i < length indent_map" by simp
  have "n = length indent_map - Suc i" using Suc.hyps(2) by simp
  from Suc.hyps(1) [OF this, of "fixed @ [if i = 0 then 0
                 else next_depth (indent_map ! (i - 1)) (last fixed) (indent_map ! i)]"] lt Suc.prems
  show ?case by (simp add: fix_loop_unfold [OF lt])
qed

lemma fix_loop_prefix:
  "length fixed = i \<Longrightarrow> k < i \<Longrightarrow> fix_loop indent_map i fixed ! k = fixed ! k"
proof (induction "length indent_map - i" arbitrary: i fixed)
  case 0
  then show ?case by (simp add: fix_loop_done)
next
  case (Suc n)
  then have lt: "i < length indent_map" by simp
  have "n = length indent_map - Suc i" using Suc.hyps(2) by simp
  from Suc.hyps(1) [OF this, of "fixed @ [if i = 0 then 0
                 else next_depth (indent_map ! (i - 1)) (last fixed) (indent_map ! i)]"] lt Suc.prems
  show ?case by (simp add: fix_loop_unfold [OF lt] nth_append)
qed

lemma fix_loop_step:
  assumes lt: "i < length indent_map" and len: "length fixed = i"
  shows "fix_loop indent_map i fixed ! i =
     (if i = 0 then 0
      else next_depth (indent_map ! (i - 1)) (fixed ! (i - 1)) (indent_map ! i))"
proof -
  have last_eq: "i \<noteq> 0 \<Longrightarrow> last fixed = fixed ! (i - 1)"
    using len by (cases fixed rule: rev_cases) (auto simp: nth_append)
  have "fix_loop indent_map i fixed ! i =
      (fixed @ [if i = 0 then 0
                 else next_depth (indent_map ! (i - 1)) (last fixed) (indent_map ! i)]) ! i"
    using len by (simp add: fix_loop_unfold [OF lt] fix_loop_prefix)
  then show ?thesis using len last_eq by (simp add: nth_append)
qed

text \<open>Restarting the loop at \<open>i\<close> from the first \<open>i\<close> entries of its own result.\<close>

lemma fix_loop_restart:
  "i \<le> length indent_map \<Longrightarrow>
   fix_loop indent_map i (take i (fix_loop indent_map 0 [])) = fix_loop indent_map 0 []"
proof (induction i)
  case 0
  show ?case by simp
next
  case (Suc i)
  let ?F = "fix_loop indent_map 0 []"
  let ?v = "if i = 0 then 0
            else next_depth (indent_map ! (i - 1)) (last (take i ?F)) (indent_map ! i)"
  from Suc.prems have lt: "i < length indent_map" by simp
  have lenF: "length ?F = length indent_map" by (simp add: fix_loop_length)
  have len: "length (take i ?F) = i" using lt lenF by simp
  have unf: "fix_loop indent_map i (take i ?F) = fix_loop indent_map (Suc i) (take i ?F @ [?v])"
    by (rule fix_loop_unfold [OF lt])
  have "?F ! i = fix_loop indent_map (Suc i) (take i ?F @ [?v]) ! i"
    using Suc.IH lt unf by simp
  also have "\<dots> = (take i ?F @ [?v]) ! i"
    using len by (simp add: fix_loop_prefix)
  also have "\<dots> = ?v" using len by (simp add: nth_append)
  finally have "take (Suc i) ?F = take i ?F @ [?v]"
    using lt lenF by (simp add: take_Suc_conv_app_nth)
  with unf Suc.IH lt show ?case by simp
qed

subsection \<open>The depth of each line\<close>

lemma fixed_indent_map_length: "length (fixed_indent_map ls) = length ls"
  by (simp add: fixed_indent_map_def indent_map_of_def fix_loop_length)

lemma fixed_indent_map_first: "ls \<noteq> [] \<Longrightarrow> fixed_indent_map ls ! 0 = 0"
  using fix_loop_step [of 0 "indent_map_of ls" "[]"]
  by (simp add: fixed_indent_map_def indent_map_of_def)

lemma fixed_indent_map_next:
  assumes "0 < i" and "i < length ls"
  shows "fixed_indent_map ls ! i =
     next_depth (get_indent (ls ! (i - 1))) (fixed_indent_map ls ! (i - 1)) (get_indent (ls ! i))"
proof -
  let ?m = "indent_map_of ls"
  let ?F = "fix_loop ?m 0 []"
  have lt: "i < length ?m" using assms by (simp add: indent_map_of_def)
  have lenF: "length ?F = length ?m" by (simp add: fix_loop_length)
  have len: "length (take i ?F) = i" using lt lenF by simp
  have "?F ! i = fix_loop ?m i (take i ?F) ! i"
    using lt by (simp add: fix_loop_restart)
  also have "\<dots> = next_depth (?m ! (i - 1)) (take i ?F ! (i - 1)) (?m ! i)"
    using assms(1) fix_loop_step [OF lt len] by simp
  finally show ?thesis
    using assms by (simp add: fixed_indent_map_def indent_map_of_def)
qed

text \<open>A line that starts at the margin has depth 0, wherever it stands.\<close>

lemma fixed_indent_map_margin:
  assumes "i < length ls" and "get_indent (ls ! i) = 0"
  shows "fixed_indent_map ls ! i = 0"
proof (cases "i = 0")
  case True
  with assms(1) show ?thesis by (auto simp: fixed_indent_map_first)
next
  case False
  with assms show ?thesis by (simp add: fixed_indent_map_next next_depth_def)
qed

lemma get_indent_simps:
  "get_indent [] = 0"
  "get_indent (c # cs) = (if c = CHR '' '' then Suc (get_indent cs) else 0)"
  by (auto simp: get_indent_def lstrip_space_def Suc_diff_le length_dropWhile_le)

lemma fixed_indent_map_reset: "fixed_indent_map lines_reset = [0, 1, 2, 0]"
  by (simp add: fixed_indent_map_def indent_map_of_def lines_reset_def get_indent_simps
      fix_loop.simps)

lemma fixed_indent_map_bgp: "fixed_indent_map lines_bgp = [0, 1, 2, 0]"
  by (simp add: fixed_indent_map_def indent_map_of_def lines_bgp_def get_indent_simps
      fix_loop.simps)

text \<open>
  C1, as the code has it.  The first line has depth 0.  For two adjacent lines, either
  the later line starts at the margin (raw indent 0) and its depth is 0, whatever the
  depth before it, or the two depths differ by -1, 0 or +1.
\<close>

theorem fix_indents_unit_step_or_reset:
  "(ls \<noteq> [] \<longrightarrow> fixed_indent_map ls ! 0 = 0) \<and>
   (0 < i \<and> i < length ls \<longrightarrow>
      (get_indent (ls ! i) = 0 \<and> fixed_indent_map ls ! i = 0) \<or>
      fixed_indent_map ls ! i - fixed_indent_map ls ! (i - 1) \<in> {-1, 0, 1})"
  by (auto simp: fixed_indent_map_first fixed_indent_map_next next_depth_def)

theorem fix_indents_unit_step_or_reset_witness:
  "lines_bgp \<noteq> [] \<and> (0::nat) < 3 \<and> 3 < length lines_bgp \<and>
   fixed_indent_map lines_bgp ! 0 = 0 \<and>
   ((get_indent (lines_bgp ! 3) = 0 \<and> fixed_indent_map lines_bgp ! 3 = 0) \<or>
    fixed_indent_map lines_bgp ! 3 - fixed_indent_map lines_bgp ! (3 - 1) \<in> {-1, 0, 1})"
  using fix_indents_unit_step_or_reset [of lines_bgp 3]
  by (simp add: lines_bgp_def)

text \<open>
  C1 as stated fails: in the four lines of \<^term>\<open>lines_bgp\<close> the last line follows a
  line of depth 2 and has depth 0.
\<close>

theorem fix_indents_unit_step_counterexample:
  "(3::nat) < length lines_bgp \<and>
   fixed_indent_map lines_bgp ! 3 - fixed_indent_map lines_bgp ! 2 \<notin> {-1, 0, 1}"
  by (simp add: fixed_indent_map_bgp) (simp add: lines_bgp_def)

text \<open>
  C2, as the code has it.  The first line gets depth 0.  A later line whose raw indent
  equals the previous raw indent gets the previous depth; one whose raw indent is
  strictly greater gets the previous depth plus 1; one whose raw indent is strictly less
  gets the previous depth minus 1 when it is still indented, and depth 0 when it starts
  at the margin.
\<close>

theorem fix_indents_cases:
  "(ls \<noteq> [] \<longrightarrow> fixed_indent_map ls ! 0 = 0) \<and>
   (0 < i \<and> i < length ls \<longrightarrow>
      (get_indent (ls ! i) = get_indent (ls ! (i - 1)) \<longrightarrow>
         fixed_indent_map ls ! i = fixed_indent_map ls ! (i - 1)) \<and>
      (get_indent (ls ! i) > get_indent (ls ! (i - 1)) \<longrightarrow>
         fixed_indent_map ls ! i = fixed_indent_map ls ! (i - 1) + 1) \<and>
      (get_indent (ls ! i) < get_indent (ls ! (i - 1)) \<and> get_indent (ls ! i) \<noteq> 0 \<longrightarrow>
         fixed_indent_map ls ! i = fixed_indent_map ls ! (i - 1) - 1) \<and>
      (get_indent (ls ! i) < get_indent (ls ! (i - 1)) \<and> get_indent (ls ! i) = 0 \<longrightarrow>
         fixed_indent_map ls ! i = 0))"
proof -
  have eq: "fixed_indent_map ls ! i = fixed_indent_map ls ! (i - 1)"
    if "0 < i" "i < length ls" "get_indent (ls ! i) = get_indent (ls ! (i - 1))"
  proof (cases "get_indent (ls ! i) = 0")
    case True
    with that have "fixed_indent_map ls ! i = 0" "fixed_indent_map ls ! (i - 1) = 0"
      by (simp_all add: fixed_indent_map_margin)
    then show ?thesis by simp
  next
    case False
    with that show ?thesis by (simp add: fixed_indent_map_next next_depth_def)
  qed
  show ?thesis
    using eq by (auto simp: fixed_indent_map_first fixed_indent_map_next next_depth_def)
qed

theorem fix_indents_cases_witness:
  "lines_dedent \<noteq> [] \<and> (0::nat) < 2 \<and> 2 < length lines_dedent \<and>
   get_indent (lines_dedent ! 2) < get_indent (lines_dedent ! (2 - 1)) \<and>
   get_indent (lines_dedent ! 2) \<noteq> 0 \<and>
   fixed_indent_map lines_dedent ! 0 = 0 \<and>
   fixed_indent_map lines_dedent ! 2 = fixed_indent_map lines_dedent ! (2 - 1) - 1"
  using fix_indents_cases [of lines_dedent 2]
  by (simp add: lines_dedent_def get_indent_simps)

text \<open>
  C2 as stated fails in its last case: the fourth line of \<^term>\<open>lines_reset\<close> has a
  raw indent strictly less than the third line's, and its depth is not the third line's
  depth minus 1.
\<close>

theorem fix_indents_dedent_counterexample:
  "get_indent (lines_reset ! 3) < get_indent (lines_reset ! 2) \<and>
   fixed_indent_map lines_reset ! 3 \<noteq> fixed_indent_map lines_reset ! 2 - 1"
  by (simp add: fixed_indent_map_reset) (simp add: lines_reset_def get_indent_simps)


section \<open>Properties of the query engine\<close>

subsection \<open>\<^verbatim>\<open>find_objects\<close>\<close>

text \<open>The scan keeps, in line order, the lines whose result is true, and those results.\<close>

lemma find_loop_filter:
  "find_loop compile pattern grp ls found results =
     (found @ filter (\<lambda>l. truthy (re_search compile l pattern grp)) ls,
      results @ filter truthy (map (\<lambda>l. re_search compile l pattern grp) ls))"
  by (induction ls arbitrary: found results) (simp_all add: Let_def)

text \<open>The pattern \<^verbatim>\<open>find_objects\<close> hands to the lines: the argument when it is compiled
  already, the result of \<^verbatim>\<open>_compile_regex\<close> otherwise.\<close>

lemma find_objects_pattern:
  "(if \<not> is_pattern regex then compile_regex compile regex flags else (regex, [])) =
     (case effective_pattern compile regex flags of
        None \<Rightarrow> (RNone, [(ERROR, ''Error while compiling regex'')])
      | Some p \<Rightarrow> (RPat p, []))"
  by (cases regex) (simp_all add: compile_regex_def effective_pattern_def)

lemma re_search_no_match:
  assumes "\<forall>p. to_pattern compile pattern = Some p \<longrightarrow> p_search p (line_text line) = None"
  shows "re_search compile line pattern grp = PNone"
  using assms by (simp add: re_search_def split: option.splits)

lemma find_objects_nothing:
  assumes "\<forall>line \<in> set (lines self). \<forall>p. effective_pattern compile regex flags = Some p \<longrightarrow>
             p_search p (line_text line) = None"
  shows "fst (find_objects compile self regex flags grp) = []"
proof -
  obtain pattern log1 where
    pat: "(if \<not> is_pattern regex then compile_regex compile regex flags else (regex, []))
            = (pattern, log1)"
    by (cases "if \<not> is_pattern regex then compile_regex compile regex flags else (regex, [])")
  have tp: "to_pattern compile pattern = effective_pattern compile regex flags"
    using pat unfolding find_objects_pattern by (auto split: option.splits)
  have "re_search compile line pattern grp = PNone" if "line \<in> set (lines self)" for line
    using assms that by (intro re_search_no_match) (simp add: tp)
  then have none: "\<forall>line \<in> set (lines self). \<not> truthy (re_search compile line pattern grp)"
    by simp
  have f1: "filter (\<lambda>l. truthy (re_search compile l pattern grp)) (lines self) = []"
    using none by (simp add: filter_empty_conv)
  have f2: "filter truthy (map (\<lambda>l. re_search compile l pattern grp) (lines self)) = []"
    using none by (simp add: filter_empty_conv)
  show ?thesis
    using f1 f2 by (auto simp: find_objects_def pat find_loop_filter)
qed

text \<open>With a group, the result is the list of the true results, in line order.\<close>

lemma find_objects_group:
  "grp \<noteq> GNone \<Longrightarrow>
   fst (find_objects compile self (RPat p) flags grp) =
     filter truthy (map (\<lambda>l. re_search compile l (RPat p) grp) (lines self))"
  by (simp add: find_objects_def find_loop_filter)

text \<open>
  C6.  When the pattern \<^verbatim>\<open>find_objects\<close> works with matches the text of no line, and
  also when the pattern string does not compile, the result is the empty list.  The
  function has no exceptional result: \<^verbatim>\<open>_compile_regex\<close> catches the compile error
  and the line query answers none for a null pattern.
\<close>

theorem find_objects_no_match:
  assumes "\<forall>line \<in> set (lines self). \<forall>p. effective_pattern compile regex flags = Some p \<longrightarrow>
             p_search p (line_text line) = None"
  shows "fst (find_objects compile self regex flags grp) = []"
  using assms by (rule find_objects_nothing)

lemmas example_defs =
  example_parser_def init_def line_eth0_def line_eth1_def line_desc_def line_ip_def
  line_desc_empty_def line_ip_a_def line_ip_b_def

lemmas pattern_defs =
  pat_interface_def pat_interface3_def pat_ip_def pat_description_def pat_hostname_def
  prefix_pattern_def prefix_find_def

theorem find_objects_no_match_witness:
  "fst (find_objects example_compile example_parser (RStr ''^hostname (?P<hostname>.*)'')
          re_MULTILINE GNone) = [] \<and>
   fst (find_objects example_compile example_parser (RStr ''('') re_MULTILINE GNone) = []"
proof -
  have h1: "\<forall>line \<in> set (lines example_parser).
      \<forall>p. effective_pattern example_compile (RStr ''^hostname (?P<hostname>.*)'') re_MULTILINE
            = Some p \<longrightarrow> p_search p (line_text line) = None"
    by (simp add: effective_pattern_def example_compile_def example_defs pattern_defs)
  have h2: "\<forall>line \<in> set (lines example_parser).
      \<forall>p. effective_pattern example_compile (RStr ''('') re_MULTILINE
            = Some p \<longrightarrow> p_search p (line_text line) = None"
    by (simp add: effective_pattern_def example_compile_def)
  show ?thesis
    using find_objects_no_match [OF h1] find_objects_no_match [OF h2] by simp
qed

text \<open>
  C7.  Two lines of the example match \<^verbatim>\<open>^ description ?(?P<desc>.*)\<close>: one captures
  \<^verbatim>\<open>Test\<close> in the group \<^verbatim>\<open>desc\<close>, the other captures the empty string.
  \<^verbatim>\<open>find_objects\<close> with \<^verbatim>\<open>group="desc"\<close> returns the first value only: the test
  \<^verbatim>\<open>if result:\<close> drops the empty capture of the matching line.
\<close>

theorem find_objects_drops_empty_capture:
  "re_search example_compile line_desc (RPat pat_description) (GStr ''desc'') = PStr ''Test'' \<and>
   re_search example_compile line_desc_empty (RPat pat_description) (GStr ''desc'') = PStr [] \<and>
   fst (find_objects example_compile example_parser (RPat pat_description) re_MULTILINE
          (GStr ''desc'')) = [PStr ''Test'']"
  by (simp add: find_objects_group re_search_def example_defs pattern_defs)

subsection \<open>\<^verbatim>\<open>property_autoparse\<close>\<close>

text \<open>
  C4, as the code has it.  When the candidate pattern matches no line,
  \<^verbatim>\<open>property_autoparse\<close> returns Python's \<^verbatim>\<open>None\<close>: it raises nothing, and the
  result is not a list.
\<close>

theorem property_autoparse_no_candidates:
  assumes "\<forall>line \<in> set (lines self).
             \<forall>p. effective_pattern compile candidate_pattern re_MULTILINE = Some p \<longrightarrow>
               p_search p (line_text line) = None"
  shows "fst (property_autoparse compile self candidate_pattern patterns) = Inr None"
  using find_objects_nothing [OF assms, of GNone]
  by (auto simp: property_autoparse_def split: prod.splits)

theorem property_autoparse_no_candidates_witness:
  "fst (property_autoparse example_compile example_parser (RPat pat_hostname) [RPat pat_ip])
     = Inr None"
proof -
  have h: "\<forall>line \<in> set (lines example_parser).
      \<forall>p. effective_pattern example_compile (RPat pat_hostname) re_MULTILINE = Some p \<longrightarrow>
        p_search p (line_text line) = None"
    by (simp add: effective_pattern_def example_defs pattern_defs)
  show ?thesis
    using property_autoparse_no_candidates [OF h] by simp
qed

text \<open>
  C4 as stated fails: no line of the example matches \<^verbatim>\<open>^hostname (?P<hostname>.*)\<close>,
  and the result is \<^verbatim>\<open>None\<close>, not the empty list.
\<close>

theorem property_autoparse_empty_list_counterexample:
  "fst (property_autoparse example_compile example_parser (RPat pat_hostname) [RPat pat_ip])
     \<noteq> Inr (Some [])"
  by (simp add: property_autoparse_def find_objects_def find_loop_filter re_search_def
      example_defs pattern_defs)

subsection \<open>\<^verbatim>\<open>get_section_by_parents\<close>\<close>

text \<open>A walk that has failed has logged an error and has no section.\<close>

lemma get_section_loop_failed:
  "get_section_loop compile ps sec = (s, log) \<Longrightarrow> log \<noteq> [] \<Longrightarrow> s = []"
  by (induction ps arbitrary: sec) (auto simp: Let_def split: if_splits)

text \<open>
  The walk along a chain in two parts: a first part that has failed decides the result,
  and otherwise the second part goes on from the section the first part has reached.
\<close>

lemma get_section_loop_append:
  "get_section_loop compile (ps @ qs) sec =
     (case get_section_loop compile ps sec of
        (s, []) \<Rightarrow> get_section_loop compile qs s
      | (s, e # log) \<Rightarrow> (s, e # log))"
proof (induction ps arbitrary: sec)
  case Nil
  show ?case by simp
next
  case (Cons p ps)
  show ?case by (simp add: Cons.IH Let_def)
qed

text \<open>
  C5.  The call on the empty chain returns all lines.  Let the call on the chain \<open>ps\<close>
  return the candidate set \<open>section\<close> and the log \<open>log\<close>, and let \<open>parent\<close> be the
  next pattern of a longer chain.  If the walk along \<open>ps\<close> has failed already, the call
  on every longer chain returns the empty list and the same log.  Otherwise the
  candidates that are parents and match \<open>parent\<close> decide: with none of them the call
  returns the empty list and logs that no line matched, whatever follows in the chain;
  with more than one it returns the empty list and logs that several lines matched, and
  no node is picked; with exactly one, \<open>x\<close>, the candidate set becomes the children of
  \<open>x\<close> and the walk goes on from them with the rest of the chain.
\<close>

theorem get_section_by_parents_chain:
  assumes "get_section_by_parents compile self ps = (section, log)"
  shows "get_section_by_parents compile self [] = (lines self, []) \<and>
    (log \<noteq> [] \<longrightarrow>
       section = [] \<and> get_section_by_parents compile self (ps @ rest) = ([], log)) \<and>
    (log = [] \<longrightarrow>
       (filter (\<lambda>x. is_parent x \<and> re_match compile x parent) section = [] \<longrightarrow>
          get_section_by_parents compile self (ps @ parent # rest) =
            ([], [(ERROR, ''No lines matched parent statement. Cannot determine config section.'')])) \<and>
       (1 < length (filter (\<lambda>x. is_parent x \<and> re_match compile x parent) section) \<longrightarrow>
          get_section_by_parents compile self (ps @ parent # rest) =
            ([], [(ERROR, ''Multiple lines matched parent statement. Cannot determine config section.'')])) \<and>
       (\<forall>x. filter (\<lambda>x. is_parent x \<and> re_match compile x parent) section = [x] \<longrightarrow>
          get_section_by_parents compile self (ps @ [parent]) = (get_children x, []) \<and>
          get_section_by_parents compile self (ps @ parent # rest) =
            get_section_loop compile rest (get_children x)))"
proof -
  let ?F = "filter (\<lambda>x. is_parent x \<and> re_match compile x parent) section"
  from assms have walk: "get_section_loop compile ps (lines self) = (section, log)"
    by (simp add: get_section_by_parents_def)
  have base: "get_section_by_parents compile self [] = (lines self, [])"
    by (simp add: get_section_by_parents_def)
  have failed: "section = [] \<and> get_section_by_parents compile self (ps @ rest) = ([], log)"
    if "log \<noteq> []"
  proof -
    from get_section_loop_failed [OF walk that] have "section = []" .
    with walk that show ?thesis
      by (cases log) (simp_all add: get_section_by_parents_def get_section_loop_append)
  qed
  have step: "get_section_by_parents compile self (ps @ parent # rest) =
                get_section_loop compile (parent # rest) section" if "log = []"
    using walk that by (simp add: get_section_by_parents_def get_section_loop_append)
  have last: "get_section_by_parents compile self (ps @ [parent]) =
                get_section_loop compile [parent] section" if "log = []"
    using walk that by (simp add: get_section_by_parents_def get_section_loop_append)
  have none: "get_section_by_parents compile self (ps @ parent # rest) =
      ([], [(ERROR, ''No lines matched parent statement. Cannot determine config section.'')])"
    if "log = []" "?F = []"
    using that by (simp add: step Let_def)
  have many: "get_section_by_parents compile self (ps @ parent # rest) =
      ([], [(ERROR, ''Multiple lines matched parent statement. Cannot determine config section.'')])"
    if "log = []" "1 < length ?F"
    using that by (simp add: step Let_def)
  have one: "get_section_by_parents compile self (ps @ [parent]) = (get_children x, []) \<and>
             get_section_by_parents compile self (ps @ parent # rest) =
               get_section_loop compile rest (get_children x)"
    if "log = []" "?F = [x]" for x
    using that by (simp add: step last Let_def)
  from base failed none many one show ?thesis by blast
qed

lemmas tree_defs =
  bgp_parser_def init_def line_bgp_def line_af_def line_net_def pat_bgp_def pat_af_def
  prefix_pattern_def prefix_find_def

text \<open>
  On the three-level configuration the chain of the two patterns leads to the network
  line.  On the interface example the pattern that both interfaces match leads nowhere,
  whatever follows it, and so does, under the first interface, a pattern that none of
  its children matches as a parent.
\<close>

theorem get_section_by_parents_chain_witness:
  "get_section_by_parents example_compile bgp_parser [RPat pat_bgp, RPat pat_af] =
     ([line_net], []) \<and>
   get_section_by_parents example_compile example_parser [RPat pat_interface, RPat pat_ip] =
     ([], [(ERROR, ''Multiple lines matched parent statement. Cannot determine config section.'')]) \<and>
   get_section_by_parents example_compile example_parser [RPat pat_eth0, RPat pat_ip] =
     ([], [(ERROR, ''No lines matched parent statement. Cannot determine config section.'')]) \<and>
   get_section_by_parents example_compile example_parser
     [RPat pat_eth0, RPat pat_ip, RPat pat_description] =
     ([], [(ERROR, ''No lines matched parent statement. Cannot determine config section.'')])"
proof -
  have h0: "get_section_by_parents example_compile example_parser [] =
              (lines example_parser, [])"
    by (simp add: get_section_by_parents_def)
  have h1: "get_section_by_parents example_compile bgp_parser [RPat pat_bgp] = ([line_af], [])"
    by (simp add: get_section_by_parents_def is_parent_def get_children_def re_match_def
        tree_defs)
  have f1: "filter (\<lambda>x. is_parent x \<and> re_match example_compile x (RPat pat_af)) [line_af] =
              [line_af]"
    by (simp add: is_parent_def get_children_def re_match_def tree_defs)
  have c1: "get_children line_af = [line_net]"
    by (simp add: get_children_def line_af_def)
  have f2: "filter (\<lambda>x. is_parent x \<and> re_match example_compile x (RPat pat_interface))
              (lines example_parser) = [line_eth0, line_eth1]"
    by (simp add: is_parent_def get_children_def re_match_def example_defs pattern_defs)
  have h3: "get_section_by_parents example_compile example_parser [RPat pat_eth0] =
              ([line_desc, line_ip], [])"
    by (simp add: get_section_by_parents_def is_parent_def get_children_def re_match_def
        pat_eth0_def example_defs pattern_defs)
  have f3: "filter (\<lambda>x. is_parent x \<and> re_match example_compile x (RPat pat_ip))
              [line_desc, line_ip] = []"
    by (simp add: is_parent_def get_children_def example_defs)
  have h4: "get_section_by_parents example_compile example_parser [RPat pat_eth0, RPat pat_ip] =
     ([], [(ERROR, ''No lines matched parent statement. Cannot determine config section.'')])"
    using get_section_by_parents_chain [OF h3, where rest = "[]" and parent = "RPat pat_ip"] f3 by simp
  show ?thesis
    using get_section_by_parents_chain [OF h1, where rest = "[]" and parent = "RPat pat_af"] f1 c1
      get_section_by_parents_chain [OF h0, where rest = "[RPat pat_ip]"
        and parent = "RPat pat_interface"] f2
      get_section_by_parents_chain [OF h4, where rest = "[RPat pat_description]"] h4
    by simp
qed

subsection \<open>\<^verbatim>\<open>match_to_dict\<close>\<close>

text \<open>Merging a group dictionary sets exactly the keys of the pattern.\<close>

lemma dict_update_keys:
  "dict_update entry (map (\<lambda>k. (k, f k)) ks) x = (if x \<in> set ks then Some (f x) else entry x)"
  unfolding dict_update_def
  by (induction ks arbitrary: entry) auto

lemma re_search_ALL:
  "p_search q (line_text line) = Some m \<Longrightarrow>
   re_search compile line (RPat q) (GStr ''ALL'') = PDict (groupdict q m)"
  by (simp add: re_search_def)

text \<open>The loop over two lists of patterns, one after the other.\<close>

lemma match_to_dict_loop_append:
  "match_to_dict_loop compile self line (ps1 @ ps2) entry =
     (case match_to_dict_loop compile self line ps1 entry of
        Inl e \<Rightarrow> Inl e
      | Inr entry' \<Rightarrow> match_to_dict_loop compile self line ps2 entry')"
proof (induction ps1 arbitrary: entry)
  case Nil
  show ?case by simp
next
  case (Cons p ps1)
  show ?case by (simp add: Cons.IH Let_def split: sum.splits)
qed

text \<open>One pattern that does not have the group \<open>x\<close> leaves the key \<open>x\<close> as it is.\<close>

lemma match_to_dict_step_other_key:
  assumes "\<forall>q'. to_pattern compile p = Some q' \<longrightarrow> x \<notin> set (p_groupindex q')"
    and "(if re_search compile line p (GStr ''ALL'') \<noteq> PNone
          then update_from entry (re_search compile line p (GStr ''ALL''))
          else no_match_update self p entry) = Inr entry'"
  shows "entry' x = entry x"
proof (cases "re_search compile line p (GStr ''ALL'') = PNone")
  case True
  with assms(2) have upd: "no_match_update self p entry = Inr entry'" by simp
  show ?thesis
  proof (cases p)
    case (RPat q')
    with assms(1) have "x \<notin> set (p_groupindex q')" by simp
    with upd RPat show ?thesis
      by (auto simp: no_match_update_def dict_update_keys split: option.splits bool.splits)
  qed (use upd in \<open>auto simp: no_match_update_def split: option.splits bool.splits\<close>)
next
  case False
  then obtain q' m where q': "to_pattern compile p = Some q'"
    and m: "p_search q' (line_text line) = Some m"
    and res: "re_search compile line p (GStr ''ALL'') = PDict (groupdict q' m)"
    by (auto simp: re_search_def split: option.splits)
  from assms(1) q' have "x \<notin> set (p_groupindex q')" by simp
  with assms(2) False res show ?thesis
    by (auto simp: groupdict_def dict_update_keys)
qed

lemma match_to_dict_loop_other_keys:
  "\<forall>p \<in> set ps. \<forall>q'. to_pattern compile p = Some q' \<longrightarrow> x \<notin> set (p_groupindex q') \<Longrightarrow>
   match_to_dict_loop compile self line ps entry = Inr entry' \<Longrightarrow> entry' x = entry x"
proof (induction ps arbitrary: entry)
  case Nil
  then show ?case by simp
next
  case (Cons p ps)
  let ?step = "if re_search compile line p (GStr ''ALL'') \<noteq> PNone
               then update_from entry (re_search compile line p (GStr ''ALL''))
               else no_match_update self p entry"
  from Cons.prems(2) obtain entry1 where
    step: "?step = Inr entry1" and
    rest: "match_to_dict_loop compile self line ps entry1 = Inr entry'"
    by (auto simp: Let_def split: sum.splits)
  from Cons.prems(1) have "\<forall>q'. to_pattern compile p = Some q' \<longrightarrow> x \<notin> set (p_groupindex q')"
    by simp
  from match_to_dict_step_other_key [OF this step] have "entry1 x = entry x" .
  moreover from Cons.prems(1) have
    "\<forall>p \<in> set ps. \<forall>q'. to_pattern compile p = Some q' \<longrightarrow> x \<notin> set (p_groupindex q')"
    by simp
  from Cons.IH [OF this rest] have "entry' x = entry1 x" .
  ultimately show ?case by simp
qed

text \<open>A list of patterns that all match the line raises nothing.\<close>

lemma match_to_dict_loop_all_match:
  "\<forall>p \<in> set ps. re_search compile line p (GStr ''ALL'') \<noteq> PNone \<Longrightarrow>
   \<exists>entry'. match_to_dict_loop compile self line ps entry = Inr entry'"
proof (induction ps arbitrary: entry)
  case Nil
  show ?case by simp
next
  case (Cons p ps)
  from Cons.prems have ne: "re_search compile line p (GStr ''ALL'') \<noteq> PNone" by simp
  then obtain d where d: "re_search compile line p (GStr ''ALL'') = PDict d"
    by (auto simp: re_search_def split: option.splits)
  from Cons.prems have "\<forall>p \<in> set ps. re_search compile line p (GStr ''ALL'') \<noteq> PNone"
    by simp
  from Cons.IH [OF this, of "dict_update entry d"] d show ?case
    by (simp add: Let_def)
qed

text \<open>
  The value at \<open>x\<close> comes from the last pattern of the list that has the group \<open>x\<close>:
  what the patterns before it have stored at \<open>x\<close> is overwritten.
\<close>

lemma match_to_dict_last_wins:
  assumes m: "p_search q (line_text line) = Some m"
    and x: "x \<in> set (p_groupindex q)"
    and later: "\<forall>p \<in> set ps2. \<forall>q'. to_pattern compile p = Some q' \<longrightarrow>
                  x \<notin> set (p_groupindex q')"
    and res: "match_to_dict compile self line (ps1 @ RPat q # ps2) = Inr entry"
  shows "entry x = Some (by_name m x)"
proof -
  from res obtain entry1 where
    e1: "match_to_dict_loop compile self line ps1 Map.empty = Inr entry1" and
    e2: "match_to_dict_loop compile self line (RPat q # ps2) entry1 = Inr entry"
    by (auto simp: match_to_dict_def match_to_dict_loop_append split: sum.splits)
  let ?entry2 = "dict_update entry1 (groupdict q m)"
  from e2 m have e3: "match_to_dict_loop compile self line ps2 ?entry2 = Inr entry"
    by (simp add: re_search_ALL Let_def)
  from match_to_dict_loop_other_keys [OF later e3] have "entry x = ?entry2 x" .
  with x show ?thesis by (simp add: groupdict_def dict_update_keys)
qed

text \<open>
  C8.  Let the compiled pattern \<open>q\<close> match the line and have the named group \<open>x\<close>,
  and let no pattern after \<open>q\<close> in the list have a group \<open>x\<close>.  Then every
  dictionary that \<^verbatim>\<open>match_to_dict\<close> returns for a list with \<open>q\<close> in it has at \<open>x\<close>
  what \<open>q\<close> captured, whatever the patterns before \<open>q\<close> stored there; and when all
  the other patterns of the list match the line as well, the call does return a
  dictionary.  For the list of two patterns \<open>q1\<close>, \<open>q\<close> that both match, the value at
  \<open>x\<close> is the capture of \<open>q\<close>, the later one.
\<close>

theorem match_to_dict_later_wins:
  assumes "p_search q (line_text line) = Some m"
    and "x \<in> set (p_groupindex q)"
    and "\<forall>p \<in> set ps2. \<forall>q'. to_pattern compile p = Some q' \<longrightarrow> x \<notin> set (p_groupindex q')"
  shows "(\<forall>entry. match_to_dict compile self line (ps1 @ RPat q # ps2) = Inr entry \<longrightarrow>
            entry x = Some (by_name m x)) \<and>
         ((\<forall>p \<in> set (ps1 @ ps2). re_search compile line p (GStr ''ALL'') \<noteq> PNone) \<longrightarrow>
            (\<exists>entry. match_to_dict compile self line (ps1 @ RPat q # ps2) = Inr entry \<and>
                     entry x = Some (by_name m x))) \<and>
         (\<forall>q1 m1. p_search q1 (line_text line) = Some m1 \<longrightarrow>
            (\<exists>entry. match_to_dict compile self line [RPat q1, RPat q] = Inr entry \<and>
                     entry x = Some (by_name m x)))"
proof (intro conjI allI impI)
  fix entry
  assume "match_to_dict compile self line (ps1 @ RPat q # ps2) = Inr entry"
  with assms show "entry x = Some (by_name m x)"
    by (rule match_to_dict_last_wins)
next
  assume all: "\<forall>p \<in> set (ps1 @ ps2). re_search compile line p (GStr ''ALL'') \<noteq> PNone"
  from assms(1) have "re_search compile line (RPat q) (GStr ''ALL'') \<noteq> PNone"
    by (simp add: re_search_ALL)
  with all have "\<forall>p \<in> set (ps1 @ RPat q # ps2).
                   re_search compile line p (GStr ''ALL'') \<noteq> PNone"
    by auto
  from match_to_dict_loop_all_match [OF this, of self Map.empty] obtain entry where
    res: "match_to_dict compile self line (ps1 @ RPat q # ps2) = Inr entry"
    by (auto simp: match_to_dict_def)
  with assms have "entry x = Some (by_name m x)"
    by (rule match_to_dict_last_wins)
  with res show "\<exists>entry. match_to_dict compile self line (ps1 @ RPat q # ps2) = Inr entry \<and>
                         entry x = Some (by_name m x)"
    by blast
next
  fix q1 :: re_pattern and m1
  assume "p_search q1 (line_text line) = Some m1"
  with assms(1,2) show "\<exists>entry. match_to_dict compile self line [RPat q1, RPat q] = Inr entry \<and>
                               entry x = Some (by_name m x)"
    by (simp add: match_to_dict_def re_search_ALL groupdict_def dict_update_keys)
qed

text \<open>
  On the first interface line of the example: \<^verbatim>\<open>^interface (?P<name>.*)\<close> captures
  \<^verbatim>\<open>Ethernet0/0\<close> in \<^verbatim>\<open>name\<close>, \<^verbatim>\<open>^interface (?P<name>.{3})\<close> after it captures
  \<^verbatim>\<open>Eth\<close>, and \<^verbatim>\<open>^interface Ethernet0/0(?P<rest>.*)\<close> at the end has no group
  \<^verbatim>\<open>name\<close>.  The dictionary has \<^verbatim>\<open>Eth\<close> at \<^verbatim>\<open>name\<close>; with the first two patterns
  in the other order it has \<^verbatim>\<open>Ethernet0/0\<close>.
\<close>

theorem match_to_dict_later_wins_witness:
  "by_name match_eth0_all ''name'' = Some ''Ethernet0/0'' \<and>
   by_name match_eth0_three ''name'' = Some ''Eth'' \<and>
   (\<exists>entry. match_to_dict example_compile example_parser line_eth0
               [RPat pat_interface, RPat pat_interface3, RPat pat_eth0] = Inr entry \<and>
            entry ''name'' = Some (Some ''Eth'')) \<and>
   (\<exists>entry. match_to_dict example_compile example_parser line_eth0
               [RPat pat_interface3, RPat pat_interface, RPat pat_eth0] = Inr entry \<and>
            entry ''name'' = Some (Some ''Ethernet0/0'')) \<and>
   (\<exists>entry. match_to_dict example_compile example_parser line_eth0
               [RPat pat_interface, RPat pat_interface3] = Inr entry \<and>
            entry ''name'' = Some (Some ''Eth''))"
proof -
  have h1: "p_search pat_interface (line_text line_eth0) = Some match_eth0_all"
    by (simp add: match_eth0_all_def example_defs pattern_defs)
  have h2: "p_search pat_interface3 (line_text line_eth0) = Some match_eth0_three"
    by (simp add: match_eth0_three_def example_defs pattern_defs)
  have k1: "''name'' \<in> set (p_groupindex pat_interface)"
    by (simp add: pattern_defs)
  have k2: "''name'' \<in> set (p_groupindex pat_interface3)"
    by (simp add: pattern_defs)
  have later: "\<forall>p \<in> set [RPat pat_eth0]. \<forall>q'. to_pattern example_compile p = Some q' \<longrightarrow>
                 ''name'' \<notin> set (p_groupindex q')"
    by (simp add: pat_eth0_def prefix_pattern_def)
  have none: "\<forall>p \<in> set ([]::regex_arg list). \<forall>q'. to_pattern example_compile p = Some q' \<longrightarrow>
                 ''name'' \<notin> set (p_groupindex q')"
    by simp
  have s1: "re_search example_compile line_eth0 (RPat pat_interface) (GStr ''ALL'') \<noteq> PNone"
    using h1 by (simp add: re_search_ALL)
  have s2: "re_search example_compile line_eth0 (RPat pat_interface3) (GStr ''ALL'') \<noteq> PNone"
    using h2 by (simp add: re_search_ALL)
  have s3: "re_search example_compile line_eth0 (RPat pat_eth0) (GStr ''ALL'') \<noteq> PNone"
    by (simp add: re_search_def pat_eth0_def example_defs pattern_defs)
  have v1: "by_name match_eth0_all ''name'' = Some ''Ethernet0/0''"
    by (simp add: match_eth0_all_def)
  have v2: "by_name match_eth0_three ''name'' = Some ''Eth''"
    by (simp add: match_eth0_three_def)
  show ?thesis
    using v1 v2 s1 s2 s3 h1
      match_to_dict_later_wins [OF h2 k2 later, where ?ps1.0 = "[RPat pat_interface]"
        and self = example_parser]
      match_to_dict_later_wins [OF h1 k1 later, where ?ps1.0 = "[RPat pat_interface3]"
        and self = example_parser]
      match_to_dict_later_wins [OF h2 k2 none, where self = example_parser]
    by simp
qed

subsection \<open>\<^verbatim>\<open>section_property_autoparse\<close>: the loop over the patterns\<close>

text \<open>The inner loop over two lists of patterns, one after the other.\<close>

lemma section_patterns_loop_append:
  "section_patterns_loop compile self candidate (ps1 @ ps2) entry =
     (case section_patterns_loop compile self candidate ps1 entry of
        (Inl e, log) \<Rightarrow> (Inl e, log)
      | (Inr entry', log) \<Rightarrow>
          (case section_patterns_loop compile self candidate ps2 entry' of
             (r, log') \<Rightarrow> (r, log @ log')))"
proof (induction ps1 arbitrary: entry)
  case Nil
  show ?case by (simp split: prod.splits)
next
  case (Cons p ps1)
  show ?case
    by (simp add: Cons.IH Let_def split: prod.splits sum.splits)
qed

text \<open>A pattern with several matching children: the dictionary goes on unchanged.\<close>

lemma section_patterns_loop_ambiguous:
  assumes "1 < length (re_search_children compile candidate p (GStr ''ALL''))"
  shows "section_patterns_loop compile self candidate (p # rest) entry =
     (case section_patterns_loop compile self candidate rest entry of
        (r, log) \<Rightarrow> (r, (WARNING, ''Multiple possible updates found'') # log))"
  using assms by (auto simp: Let_def)

lemma section_patterns_loop_skip:
  assumes "1 < length (re_search_children compile candidate p (GStr ''ALL''))"
  shows "fst (section_patterns_loop compile self candidate (ps1 @ p # ps2) entry) =
         fst (section_patterns_loop compile self candidate (ps1 @ ps2) entry)"
  by (simp add: section_patterns_loop_append [of _ _ _ ps1]
      section_patterns_loop_ambiguous [OF assms] del: section_patterns_loop.simps
      split: prod.splits sum.splits)

lemma section_patterns_loop_warns:
  assumes "1 < length (re_search_children compile candidate p (GStr ''ALL''))"
    and "fst (section_patterns_loop compile self candidate ps1 entry) = Inr entry'"
  shows "(WARNING, ''Multiple possible updates found'') \<in>
         set (snd (section_patterns_loop compile self candidate (ps1 @ p # ps2) entry))"
  using assms(2)
  by (auto simp add: section_patterns_loop_append [of _ _ _ ps1]
      section_patterns_loop_ambiguous [OF assms(1)] simp del: section_patterns_loop.simps
      split: prod.splits sum.splits)

text \<open>The children of the second interface of the example under three patterns.\<close>

lemma re_search_children_example:
  "re_search_children example_compile line_eth1 (RPat pat_ip) (GStr ''ALL'') =
     [PDict [(''ip'', Some ''10.0.1.1 255.255.255.0'')],
      PDict [(''ip'', Some ''10.0.2.1 255.255.255.0 secondary'')]]"
  "re_search_children example_compile line_eth1 (RPat pat_description) (GStr ''ALL'') =
     [PDict [(''desc'', Some [])]]"
  "re_search_children example_compile line_eth1 (RPat pat_hostname) (GStr ''ALL'') = []"
  by (simp_all add: re_search_children_def re_search_def get_children_def groupdict_def
      example_defs pattern_defs)

subsection \<open>The attribute \<^verbatim>\<open>minimal_results\<close>\<close>

text \<open>A query for all named groups answers none or a dictionary.\<close>

lemma re_search_ALL_cases:
  "re_search compile line r (GStr ''ALL'') = PNone \<or>
   (\<exists>d. re_search compile line r (GStr ''ALL'') = PDict d)"
  by (simp add: re_search_def split: option.splits)

lemma re_search_children_ALL:
  "v \<in> set (re_search_children compile c p (GStr ''ALL'')) \<Longrightarrow> \<exists>d. v = PDict d"
  using re_search_ALL_cases [of compile _ p]
  by (auto simp: re_search_children_def)

lemma no_match_update_unset:
  "minimal_results self = None \<Longrightarrow> no_match_update self p entry = Inl AttributeError"
  by (simp add: no_match_update_def)

lemma none_dict_error: "none_dict r = Inl err \<Longrightarrow> err = AttributeError"
  by (cases r) simp_all

lemma no_match_update_error:
  "no_match_update self p entry = Inl err \<Longrightarrow> err = AttributeError"
  by (auto simp: no_match_update_def split: option.splits bool.splits sum.splits
      dest: none_dict_error)

text \<open>\<^verbatim>\<open>match_to_dict\<close>: the only exception is \<^verbatim>\<open>AttributeError\<close>, and a pattern
  that does not match raises it when the attribute was never assigned.\<close>

lemma match_to_dict_loop_error:
  "match_to_dict_loop compile self line ps entry = Inl err \<Longrightarrow> err = AttributeError"
proof (induction ps arbitrary: entry)
  case Nil
  then show ?case by simp
next
  case (Cons p ps)
  show ?case
  proof (cases "re_search compile line p (GStr ''ALL'') = PNone")
    case True
    with Cons show ?thesis
      by (auto simp: Let_def split: sum.splits dest: no_match_update_error)
  next
    case False
    with re_search_ALL_cases [of compile line p] obtain d
      where "re_search compile line p (GStr ''ALL'') = PDict d" by blast
    with Cons show ?thesis by (auto simp: Let_def)
  qed
qed

lemma match_to_dict_loop_raises:
  "minimal_results self = None \<Longrightarrow> p \<in> set ps \<Longrightarrow>
   re_search compile line p (GStr ''ALL'') = PNone \<Longrightarrow>
   \<exists>err. match_to_dict_loop compile self line ps entry = Inl err"
proof (induction ps arbitrary: entry)
  case Nil
  then show ?case by simp
next
  case (Cons q ps)
  show ?case
  proof (cases "re_search compile line q (GStr ''ALL'') = PNone")
    case True
    with Cons.prems(1) show ?thesis
      by (simp add: Let_def no_match_update_unset)
  next
    case False
    with Cons.prems(3) have "p \<noteq> q" by auto
    with Cons.prems(2) have "p \<in> set ps" by simp
    from Cons.IH [OF Cons.prems(1) this Cons.prems(3)] False show ?thesis
      by (auto simp: Let_def split: sum.splits)
  qed
qed

lemma match_to_dict_unset:
  assumes "minimal_results self = None" and "p \<in> set ps"
    and "re_search compile line p (GStr ''ALL'') = PNone"
  shows "match_to_dict compile self line ps = Inl AttributeError"
proof -
  from match_to_dict_loop_raises [OF assms] obtain err
    where "match_to_dict_loop compile self line ps Map.empty = Inl err" by blast
  with match_to_dict_loop_error [OF this] show ?thesis
    by (simp add: match_to_dict_def)
qed

text \<open>The same for the loops of \<^verbatim>\<open>section_property_autoparse\<close>.\<close>

lemma section_patterns_loop_error:
  "fst (section_patterns_loop compile self c ps entry) = Inl err \<Longrightarrow> err = AttributeError"
proof (induction ps arbitrary: entry)
  case Nil
  then show ?case by simp
next
  case (Cons p ps)
  let ?updates = "re_search_children compile c p (GStr ''ALL'')"
  consider (one) "length ?updates = 1" | (none) "length ?updates = 0"
    | (many) "1 < length ?updates" by linarith
  then show ?case
  proof cases
    case one
    then obtain v where v: "?updates = [v]" by (auto simp: length_Suc_conv)
    then have "v \<in> set ?updates" by simp
    from re_search_children_ALL [OF this] obtain d where "v = PDict d" ..
    with v Cons show ?thesis by (auto simp: Let_def)
  next
    case none
    with Cons show ?thesis
      by (auto simp: Let_def split: sum.splits dest: no_match_update_error)
  next
    case many
    from Cons.prems
    have "fst (case section_patterns_loop compile self c ps entry of
                 (r, log) \<Rightarrow> (r, (WARNING, ''Multiple possible updates found'') # log)) =
          Inl err"
      by (simp only: section_patterns_loop_ambiguous [OF many])
    then have "fst (section_patterns_loop compile self c ps entry) = Inl err"
      by (simp split: prod.splits)
    then show ?thesis by (rule Cons.IH)
  qed
qed

lemma section_patterns_loop_raises:
  "minimal_results self = None \<Longrightarrow> p \<in> set ps \<Longrightarrow>
   re_search_children compile c p (GStr ''ALL'') = [] \<Longrightarrow>
   \<exists>err. fst (section_patterns_loop compile self c ps entry) = Inl err"
proof (induction ps arbitrary: entry)
  case Nil
  then show ?case by simp
next
  case (Cons q ps)
  show ?case
  proof (cases "re_search_children compile c q (GStr ''ALL'') = []")
    case True
    with Cons.prems(1) show ?thesis
      by (simp add: Let_def no_match_update_unset)
  next
    case False
    with Cons.prems(3) have "p \<noteq> q" by auto
    with Cons.prems(2) have "p \<in> set ps" by simp
    note ih = Cons.IH [OF Cons.prems(1) this Cons.prems(3)]
    let ?updates = "re_search_children compile c q (GStr ''ALL'')"
    from False consider (one) "length ?updates = 1" | (many) "1 < length ?updates"
      by (cases ?updates) auto
    then show ?thesis
    proof cases
      case one
      with ih show ?thesis by (auto simp: Let_def split: sum.splits)
    next
      case many
      obtain r log where rl: "section_patterns_loop compile self c ps entry = (r, log)"
        by (cases "section_patterns_loop compile self c ps entry")
      with ih [of entry] obtain err where "r = Inl err" by auto
      with many rl show ?thesis by (auto simp: Let_def)
    qed
  qed
qed

lemma candidate_entry_error:
  "fst (candidate_entry compile self parent ps c) = Inl err \<Longrightarrow> err = AttributeError"
proof (cases "parent_entry compile self parent c")
  case (Inl e)
  assume "fst (candidate_entry compile self parent ps c) = Inl err"
  with Inl have err: "e = err" by (simp add: candidate_entry_def)
  from Inl have "e = AttributeError"
    by (cases parent)
       (auto simp: match_to_dict_def simp del: match_to_dict_loop.simps
          split: if_splits sum.splits dest: match_to_dict_loop_error)
  with err show ?thesis by simp
next
  case (Inr entry0)
  assume "fst (candidate_entry compile self parent ps c) = Inl err"
  with Inr show ?thesis
    by (auto simp: candidate_entry_def dest: section_patterns_loop_error)
qed

lemma candidate_entry_raises:
  assumes "minimal_results self = None" and "p \<in> set ps"
    and "re_search_children compile c p (GStr ''ALL'') = []"
  shows "\<exists>err. fst (candidate_entry compile self parent ps c) = Inl err"
  using section_patterns_loop_raises [OF assms]
  by (auto simp: candidate_entry_def split: sum.splits)

lemma section_candidates_loop_error:
  "fst (section_candidates_loop compile self parent ps rwl cands entries) = Inl err \<Longrightarrow>
   err = AttributeError"
proof (induction cands arbitrary: entries)
  case Nil
  then show ?case by simp
next
  case (Cons v cands)
  show ?case
  proof (cases v)
    case (PLine c)
    obtain r log where ce: "candidate_entry compile self parent ps c = (r, log)"
      by (cases "candidate_entry compile self parent ps c")
    show ?thesis
    proof (cases r)
      case (Inl e)
      with ce PLine Cons.prems have "e = err" by simp
      with candidate_entry_error [of compile self parent ps c e] ce Inl show ?thesis by simp
    next
      case (Inr entry)
      let ?entries = "entries @ [if rwl then LineEntry c entry else Entry entry]"
      from ce PLine Inr Cons.prems
      have "fst (section_candidates_loop compile self parent ps rwl cands ?entries) = Inl err"
        by (auto split: prod.splits split del: if_split)
      then show ?thesis by (rule Cons.IH)
    qed
  qed (use Cons.prems in simp_all)
qed

lemma section_candidates_loop_raises:
  assumes "minimal_results self = None" and "p \<in> set ps"
    and "re_search_children compile c p (GStr ''ALL'') = []"
  shows "PLine c \<in> set cands \<Longrightarrow>
   \<exists>err. fst (section_candidates_loop compile self parent ps rwl cands entries) = Inl err"
proof (induction cands arbitrary: entries)
  case Nil
  then show ?case by simp
next
  case (Cons v cands)
  show ?case
  proof (cases v)
    case (PLine d)
    show ?thesis
    proof (cases "fst (candidate_entry compile self parent ps d)")
      case (Inl e)
      with PLine show ?thesis by (auto split: prod.splits)
    next
      case (Inr entry)
      with candidate_entry_raises [OF assms, of parent] have "d \<noteq> c" by auto
      with Cons.prems PLine have "PLine c \<in> set cands" by simp
      let ?entries = "entries @ [if rwl then LineEntry d entry else Entry entry]"
      from Cons.IH [OF \<open>PLine c \<in> set cands\<close>, of ?entries] obtain err where
        "fst (section_candidates_loop compile self parent ps rwl cands ?entries) = Inl err" ..
      with PLine Inr show ?thesis
        by (auto split: prod.splits split del: if_split)
    qed
  qed simp_all
qed

text \<open>
  C10.  \<^verbatim>\<open>__init__\<close> leaves \<^verbatim>\<open>minimal_results\<close> unassigned, and filling
  \<^verbatim>\<open>lines\<close> does not change that.  On a parser without the attribute,
  \<^verbatim>\<open>match_to_dict\<close> raises \<^verbatim>\<open>AttributeError\<close> as soon as one of its patterns does
  not match the line, and \<^verbatim>\<open>section_property_autoparse\<close> raises it as soon as one of
  its patterns matches no child of one of the parent candidates.
\<close>

theorem minimal_results_unset_raises:
  "minimal_results ((init v)\<lparr>lines := ls\<rparr>) = None \<and>
   (minimal_results self = None \<and> pattern \<in> set patterns \<and>
    re_search compile line pattern (GStr ''ALL'') = PNone \<longrightarrow>
      match_to_dict compile self line patterns = Inl AttributeError) \<and>
   (minimal_results self = None \<and> pattern \<in> set patterns \<and>
    section_candidates compile self parent = Inr (candidates, log0) \<and>
    PLine c \<in> set candidates \<and>
    re_search_children compile c pattern (GStr ''ALL'') = [] \<longrightarrow>
      fst (section_property_autoparse compile self parent patterns return_with_line) =
        Inl AttributeError)"
proof (intro conjI impI)
  show "minimal_results ((init v)\<lparr>lines := ls\<rparr>) = None"
    by (simp add: init_def)
next
  assume "minimal_results self = None \<and> pattern \<in> set patterns \<and>
    re_search compile line pattern (GStr ''ALL'') = PNone"
  then show "match_to_dict compile self line patterns = Inl AttributeError"
    using match_to_dict_unset by blast
next
  assume a: "minimal_results self = None \<and> pattern \<in> set patterns \<and>
    section_candidates compile self parent = Inr (candidates, log0) \<and>
    PLine c \<in> set candidates \<and>
    re_search_children compile c pattern (GStr ''ALL'') = []"
  then have ne: "candidates \<noteq> []" by auto
  from a section_candidates_loop_raises [of self pattern patterns compile c candidates
      parent return_with_line "[]"]
  obtain err where
    err: "fst (section_candidates_loop compile self parent patterns return_with_line
                 candidates []) = Inl err"
    by blast
  from section_candidates_loop_error [OF this] have "err = AttributeError" .
  with err a ne
  show "fst (section_property_autoparse compile self parent patterns return_with_line) =
          Inl AttributeError"
    by (auto simp: section_property_autoparse_def split: prod.splits sum.splits)
qed

theorem minimal_results_unset_raises_witness:
  "match_to_dict example_compile example_parser line_eth0
     [RPat pat_interface, RPat pat_hostname] = Inl AttributeError \<and>
   fst (section_property_autoparse example_compile example_parser (ParentLine line_eth1)
          [RPat pat_description, RPat pat_hostname] False) = Inl AttributeError"
proof -
  have unset: "minimal_results example_parser = None"
    by (simp add: example_parser_def init_def)
  have miss: "re_search example_compile line_eth0 (RPat pat_hostname) (GStr ''ALL'') = PNone"
    by (simp add: re_search_def example_defs pattern_defs)
  have cands: "section_candidates example_compile example_parser (ParentLine line_eth1) =
                 Inr ([PLine line_eth1], [])"
    by simp
  have none: "re_search_children example_compile line_eth1 (RPat pat_hostname) (GStr ''ALL'') = []"
    by (simp add: re_search_children_example)
  show ?thesis
    using unset miss cands none
      minimal_results_unset_raises [where self = example_parser
        and pattern = "RPat pat_hostname"
        and patterns = "[RPat pat_interface, RPat pat_hostname]"
        and compile = example_compile and line = line_eth0]
      minimal_results_unset_raises [where self = example_parser
        and pattern = "RPat pat_hostname"
        and patterns = "[RPat pat_description, RPat pat_hostname]"
        and compile = example_compile and parent = "ParentLine line_eth1"
        and candidates = "[PLine line_eth1]" and ?log0.0 = "[]" and c = line_eth1
        and return_with_line = False]
    by simp
qed

subsection \<open>\<^verbatim>\<open>section_property_autoparse\<close>: ambiguous children\<close>

text \<open>
  Whether the loop over the patterns raises does not depend on the dictionary it starts
  from: the dictionary is only written.
\<close>

lemma no_match_update_success:
  "no_match_update self p e1 = Inr e1' \<Longrightarrow> \<exists>e2'. no_match_update self p e2 = Inr e2'"
  by (auto simp: no_match_update_def split: option.splits bool.splits sum.splits)

lemma section_patterns_loop_success:
  "fst (section_patterns_loop compile self c ps e1) = Inr e1' \<Longrightarrow>
   \<exists>e2'. fst (section_patterns_loop compile self c ps e2) = Inr e2'"
proof (induction ps arbitrary: e1 e2 e1')
  case Nil
  show ?case by simp
next
  case (Cons p ps)
  let ?updates = "re_search_children compile c p (GStr ''ALL'')"
  consider (one) "length ?updates = 1" | (none) "?updates = []"
    | (many) "1 < length ?updates" by (cases ?updates) auto
  then show ?case
  proof cases
    case one
    then obtain v where v: "?updates = [v]" by (auto simp: length_Suc_conv)
    then have "v \<in> set ?updates" by simp
    from re_search_children_ALL [OF this] obtain d where d: "v = PDict d" ..
    from Cons.prems v d
    have "fst (section_patterns_loop compile self c ps (dict_update e1 d)) = Inr e1'"
      by (simp add: Let_def)
    from Cons.IH [OF this, of "dict_update e2 d"] v d show ?thesis
      by (simp add: Let_def)
  next
    case none
    from Cons.prems none obtain e1'' where
      u1: "no_match_update self p e1 = Inr e1''" and
      r1: "fst (section_patterns_loop compile self c ps e1'') = Inr e1'"
      by (auto simp: Let_def split: sum.splits)
    from no_match_update_success [OF u1, of e2] obtain e2'' where
      u2: "no_match_update self p e2 = Inr e2''" ..
    from Cons.IH [OF r1, of e2''] none u2 show ?thesis
      by (simp add: Let_def)
  next
    case many
    from Cons.prems
    have "fst (section_patterns_loop compile self c ps e1) = Inr e1'"
      by (simp add: section_patterns_loop_ambiguous [OF many]
          del: section_patterns_loop.simps split: prod.splits)
    from Cons.IH [OF this, of e2] show ?thesis
      by (auto simp add: section_patterns_loop_ambiguous [OF many]
          simp del: section_patterns_loop.simps split: prod.splits)
  qed
qed

text \<open>A list of patterns that raises nothing still raises nothing with one pattern less.\<close>

lemma section_patterns_loop_tail_success:
  assumes "fst (section_patterns_loop compile self c (p # ps) e) = Inr e'"
  shows "\<exists>e''. fst (section_patterns_loop compile self c ps e) = Inr e''"
proof -
  let ?updates = "re_search_children compile c p (GStr ''ALL'')"
  consider (one) "length ?updates = 1" | (none) "?updates = []"
    | (many) "1 < length ?updates" by (cases ?updates) auto
  then show ?thesis
  proof cases
    case one
    then obtain v where v: "?updates = [v]" by (auto simp: length_Suc_conv)
    then have "v \<in> set ?updates" by simp
    from re_search_children_ALL [OF this] obtain d where d: "v = PDict d" ..
    from assms v d
    have "fst (section_patterns_loop compile self c ps (dict_update e d)) = Inr e'"
      by (simp add: Let_def)
    then show ?thesis by (rule section_patterns_loop_success)
  next
    case none
    from assms none obtain e1 where
      "fst (section_patterns_loop compile self c ps e1) = Inr e'"
      by (auto simp: Let_def split: sum.splits)
    then show ?thesis by (rule section_patterns_loop_success)
  next
    case many
    from assms have "fst (section_patterns_loop compile self c ps e) = Inr e'"
      by (simp add: section_patterns_loop_ambiguous [OF many]
          del: section_patterns_loop.simps split: prod.splits)
    then show ?thesis by blast
  qed
qed

lemma section_patterns_loop_without_success:
  assumes "fst (section_patterns_loop compile self c (ps1 @ p # ps2) e) = Inr e'"
  shows "\<exists>e''. fst (section_patterns_loop compile self c (ps1 @ ps2) e) = Inr e''"
proof -
  from assms obtain e1 l1 where
    first: "section_patterns_loop compile self c ps1 e = (Inr e1, l1)" and
    second: "fst (section_patterns_loop compile self c (p # ps2) e1) = Inr e'"
    by (auto simp add: section_patterns_loop_append [of _ _ _ ps1]
        simp del: section_patterns_loop.simps split: prod.splits sum.splits)
  from section_patterns_loop_tail_success [OF second] obtain e'' where
    "fst (section_patterns_loop compile self c ps2 e1) = Inr e''" ..
  with first show ?thesis
    by (auto simp add: section_patterns_loop_append [of _ _ _ ps1] split: prod.splits)
qed

text \<open>The same for the dictionary of one candidate, and the warning on the way.\<close>

lemma candidate_entry_without_success:
  assumes "fst (candidate_entry compile self parent (ps1 @ p # ps2) c) = Inr e"
  shows "\<exists>e'. fst (candidate_entry compile self parent (ps1 @ ps2) c) = Inr e'"
proof (cases "parent_entry compile self parent c")
  case (Inl err)
  with assms show ?thesis by (simp add: candidate_entry_def)
next
  case (Inr entry0)
  with assms have "fst (section_patterns_loop compile self c (ps1 @ p # ps2) entry0) = Inr e"
    by (simp add: candidate_entry_def)
  from section_patterns_loop_without_success [OF this] Inr show ?thesis
    by (simp add: candidate_entry_def)
qed

lemma candidate_entry_ambiguous:
  assumes amb: "1 < length (re_search_children compile c p (GStr ''ALL''))"
    and res: "candidate_entry compile self parent (ps1 @ p # ps2) c = (Inr e, l)"
  shows "fst (candidate_entry compile self parent (ps1 @ ps2) c) = Inr e"
    and "(WARNING, ''Multiple possible updates found'') \<in> set l"
proof -
  from res obtain entry0 where
    p0: "parent_entry compile self parent c = Inr entry0" and
    loop: "section_patterns_loop compile self c (ps1 @ p # ps2) entry0 = (Inr e, l)"
    by (auto simp: candidate_entry_def split: sum.splits)
  from loop have "fst (section_patterns_loop compile self c (ps1 @ ps2) entry0) = Inr e"
    by (simp add: section_patterns_loop_skip [OF amb, symmetric])
  with p0 show "fst (candidate_entry compile self parent (ps1 @ ps2) c) = Inr e"
    by (simp add: candidate_entry_def)
  from loop obtain e1 where "fst (section_patterns_loop compile self c ps1 entry0) = Inr e1"
    by (auto simp add: section_patterns_loop_append [of _ _ _ ps1]
        simp del: section_patterns_loop.simps split: prod.splits sum.splits)
  from section_patterns_loop_warns [OF amb this, of ps2] loop
  show "(WARNING, ''Multiple possible updates found'') \<in> set l"
    by simp
qed

text \<open>
  A loop over the candidates that returns a list has added one element for each
  candidate, in their order: the dictionary of that candidate, with the line when
  \<^verbatim>\<open>return_with_line\<close> is set; and the log holds what each candidate has logged.
\<close>

lemma section_candidates_loop_result:
  "section_candidates_loop compile self parent ps rwl cands entries = (Inr items, log) \<Longrightarrow>
   length items = length entries + length cands \<and>
   (\<forall>j < length entries. items ! j = entries ! j) \<and>
   (\<forall>j < length cands. \<exists>c e l.
      cands ! j = PLine c \<and> candidate_entry compile self parent ps c = (Inr e, l) \<and>
      items ! (length entries + j) = (if rwl then LineEntry c e else Entry e) \<and>
      set l \<subseteq> set log)"
proof (induction cands arbitrary: entries items log)
  case Nil
  then show ?case by simp
next
  case (Cons v cands)
  from Cons.prems obtain d where v: "v = PLine d"
    by (cases v) simp_all
  obtain r l where ce: "candidate_entry compile self parent ps d = (r, l)"
    by (cases "candidate_entry compile self parent ps d")
  from Cons.prems v ce obtain e where r: "r = Inr e"
    by (cases r) simp_all
  let ?item = "if rwl then LineEntry d e else Entry e"
  obtain r' log' where
    rest: "section_candidates_loop compile self parent ps rwl cands (entries @ [?item]) =
             (r', log')"
    by (cases "section_candidates_loop compile self parent ps rwl cands (entries @ [?item])")
  from Cons.prems v ce r rest have r': "r' = Inr items" and log: "log = l @ log'"
    by (simp_all split del: if_split)
  note ih = Cons.IH [OF rest [unfolded r']]
  from ih have len: "length items = length entries + length (v # cands)"
    by simp
  from ih have old: "\<forall>j < length entries. items ! j = entries ! j"
    by (auto simp: nth_append)
  from ih have "items ! length entries = (entries @ [?item]) ! length entries"
    by simp
  then have here: "items ! length entries = ?item"
    by simp
  have new: "\<exists>c e l. (v # cands) ! j = PLine c \<and>
                candidate_entry compile self parent ps c = (Inr e, l) \<and>
                items ! (length entries + j) = (if rwl then LineEntry c e else Entry e) \<and>
                set l \<subseteq> set log" if "j < length (v # cands)" for j
  proof (cases j)
    case 0
    with v ce r here log show ?thesis by auto
  next
    case (Suc k)
    with that have "k < length cands" by simp
    with ih obtain c' e' l' where
      "cands ! k = PLine c'" "candidate_entry compile self parent ps c' = (Inr e', l')"
      "items ! (length (entries @ [?item]) + k) = (if rwl then LineEntry c' e' else Entry e')"
      "set l' \<subseteq> set log'"
      by blast
    with Suc log show ?thesis by auto
  qed
  from len old new show ?case by blast
qed

lemma section_candidates_loop_returns:
  "\<forall>v \<in> set cands. \<exists>c e l. v = PLine c \<and>
      candidate_entry compile self parent ps c = (Inr e, l) \<Longrightarrow>
   \<exists>items log.
      section_candidates_loop compile self parent ps rwl cands entries = (Inr items, log)"
proof (induction cands arbitrary: entries)
  case Nil
  show ?case by simp
next
  case (Cons v cands)
  from Cons.prems obtain c e l where
    v: "v = PLine c" and ce: "candidate_entry compile self parent ps c = (Inr e, l)"
    by auto
  from Cons.prems have "\<forall>v \<in> set cands. \<exists>c e l. v = PLine c \<and>
      candidate_entry compile self parent ps c = (Inr e, l)"
    by simp
  from Cons.IH [OF this, of "entries @ [if rwl then LineEntry c e else Entry e]"]
  obtain items log where
    "section_candidates_loop compile self parent ps rwl cands
       (entries @ [if rwl then LineEntry c e else Entry e]) = (Inr items, log)"
    by blast
  with v ce show ?case by (simp split del: if_split)
qed

text \<open>
  C9.  Let \<open>c\<close> be the parent candidate at position \<open>i\<close>, let more than one direct
  child of \<open>c\<close> match the pattern \<open>p\<close>, and let the call of
  \<^verbatim>\<open>section_property_autoparse\<close> with \<open>p\<close> among its patterns return a result.  Then
  the warning is in the log of the call; the result is a list with one element for each
  candidate; its element for \<open>c\<close> holds the dictionary that the loop body builds for
  \<open>c\<close> from the patterns without \<open>p\<close>; and the call with the patterns without \<open>p\<close>
  returns a list too, with the same element for \<open>c\<close>.
\<close>

theorem section_property_autoparse_ambiguous_child:
  assumes "section_candidates compile self parent = Inr (candidates, log0)"
    and "i < length candidates"
    and "candidates ! i = PLine c"
    and "1 < length (re_search_children compile c p (GStr ''ALL''))"
    and "section_property_autoparse compile self parent (ps1 @ p # ps2) return_with_line =
           (Inr result, log)"
  shows "(WARNING, ''Multiple possible updates found'') \<in> set log \<and>
    (\<exists>items e items' log'.
       result = Some items \<and> length items = length candidates \<and>
       items ! i = (if return_with_line then LineEntry c e else Entry e) \<and>
       fst (candidate_entry compile self parent (ps1 @ ps2) c) = Inr e \<and>
       section_property_autoparse compile self parent (ps1 @ ps2) return_with_line =
         (Inr (Some items'), log') \<and>
       length items' = length candidates \<and> items' ! i = items ! i)"
proof -
  let ?with = "ps1 @ p # ps2" and ?without = "ps1 @ ps2"
  from assms(2) have ne: "length candidates \<noteq> 0" by auto
  from assms(5) obtain items log1 where
    loop: "section_candidates_loop compile self parent ?with return_with_line candidates [] =
             (Inr items, log1)" and
    result: "result = Some items" and log: "log = log0 @ log1"
    using assms(1) ne
    by (auto simp: section_property_autoparse_def split: prod.splits sum.splits)
  note res = section_candidates_loop_result [OF loop]
  from res have len: "length items = length candidates" by simp
  from res assms(2,3) obtain e l where
    ce: "candidate_entry compile self parent ?with c = (Inr e, l)" and
    item: "items ! i = (if return_with_line then LineEntry c e else Entry e)" and
    sub: "set l \<subseteq> set log1"
    by fastforce
  note amb = candidate_entry_ambiguous [OF assms(4) ce]
  from amb(2) sub log have warn: "(WARNING, ''Multiple possible updates found'') \<in> set log"
    by auto
  have "\<forall>v \<in> set candidates. \<exists>c e l. v = PLine c \<and>
          candidate_entry compile self parent ?without c = (Inr e, l)"
  proof
    fix v
    assume "v \<in> set candidates"
    then obtain j where j: "j < length candidates" "candidates ! j = v"
      by (auto simp: in_set_conv_nth)
    with res obtain c' e' l' where
      c': "v = PLine c'" and "candidate_entry compile self parent ?with c' = (Inr e', l')"
      by fastforce
    then have "fst (candidate_entry compile self parent ?with c') = Inr e'" by simp
    from candidate_entry_without_success [OF this] obtain e'' where
      "fst (candidate_entry compile self parent ?without c') = Inr e''" ..
    then have "\<exists>l''. candidate_entry compile self parent ?without c' = (Inr e'', l'')"
      by (cases "candidate_entry compile self parent ?without c'") simp
    with c' show "\<exists>c e l. v = PLine c \<and>
                   candidate_entry compile self parent ?without c = (Inr e, l)"
      by blast
  qed
  from section_candidates_loop_returns [OF this, of return_with_line "[]"]
  obtain items' log1' where
    loop': "section_candidates_loop compile self parent ?without return_with_line candidates [] =
              (Inr items', log1')"
    by blast
  with assms(1) ne
  have call': "section_property_autoparse compile self parent ?without return_with_line =
                 (Inr (Some items'), log0 @ log1')"
    by (simp add: section_property_autoparse_def)
  note res' = section_candidates_loop_result [OF loop']
  from res' have len': "length items' = length candidates" by simp
  from res' assms(2,3) obtain e' l' where
    ce': "candidate_entry compile self parent ?without c = (Inr e', l')" and
    item': "items' ! i = (if return_with_line then LineEntry c e' else Entry e')"
    by fastforce
  from ce' amb(1) have "e' = e" by simp
  with item item' have same: "items' ! i = items ! i" by simp
  from warn result len item amb(1) call' len' same show ?thesis by blast
qed

text \<open>
  The interface example, with \<^verbatim>\<open>minimal_results = False\<close> and the parents found by
  \<^verbatim>\<open>^interface (?P<name>.*)\<close>.  The first interface has one address and the second
  has two, so that \<^verbatim>\<open>^ ip address (?P<ip>.*)\<close> gives the key \<^verbatim>\<open>ip\<close> to the first
  dictionary, and to the second neither that key nor any other; the call logs one
  warning after the record of \<^verbatim>\<open>find_objects\<close>.
\<close>

lemma find_objects_example:
  "find_objects example_compile example_parser_full (RPat pat_interface) re_MULTILINE GNone =
     ([PLine line_eth0, PLine line_eth1], [(DEBUG, ''Matched lines for query'')])"
  by (simp add: find_objects_def find_loop_filter re_search_def example_parser_full_def
      example_defs pattern_defs)

lemma example_candidates:
  "section_candidates example_compile example_parser_full (ParentRegex (RPat pat_interface)) =
     Inr ([PLine line_eth0, PLine line_eth1], [(DEBUG, ''Matched lines for query'')])"
  by (simp add: find_objects_example)

lemma re_search_children_example_first:
  "re_search_children example_compile line_eth0 (RPat pat_ip) (GStr ''ALL'') =
     [PDict [(''ip'', Some ''10.0.0.1 255.255.255.0'')]]"
  "re_search_children example_compile line_eth0 (RPat pat_description) (GStr ''ALL'') =
     [PDict [(''desc'', Some ''Test'')]]"
  "re_search_children example_compile line_eth0 (RPat pat_hostname) (GStr ''ALL'') = []"
  by (simp_all add: re_search_children_def re_search_def get_children_def groupdict_def
      example_defs pattern_defs)

lemma re_search_example_parents:
  "re_search example_compile line_eth0 (RPat pat_interface) (GStr ''ALL'') =
     PDict [(''name'', Some ''Ethernet0/0'')]"
  "re_search example_compile line_eth1 (RPat pat_interface) (GStr ''ALL'') =
     PDict [(''name'', Some ''Ethernet0/1'')]"
  by (simp_all add: re_search_def groupdict_def example_defs pattern_defs)

lemma section_property_autoparse_example:
  "\<exists>e0 e1.
     section_property_autoparse example_compile example_parser_full
       (ParentRegex (RPat pat_interface))
       ([RPat pat_description] @ RPat pat_ip # [RPat pat_hostname]) False =
       (Inr (Some [Entry e0, Entry e1]),
        [(DEBUG, ''Matched lines for query''), (WARNING, ''Multiple possible updates found'')]) \<and>
     e0 ''name'' = Some (Some ''Ethernet0/0'') \<and> e0 ''desc'' = Some (Some ''Test'') \<and>
     e0 ''ip'' = Some (Some ''10.0.0.1 255.255.255.0'') \<and> e0 ''hostname'' = Some None \<and>
     e1 ''name'' = Some (Some ''Ethernet0/1'') \<and> e1 ''desc'' = Some (Some []) \<and>
     e1 ''ip'' = None \<and> e1 ''hostname'' = Some None"
proof -
  have keys: "p_groupindex pat_hostname = [''hostname'']"
    by (simp add: pat_hostname_def prefix_pattern_def)
  have flag: "minimal_results example_parser_full = Some False"
    by (simp add: example_parser_full_def)
  show ?thesis
    by (simp add: section_property_autoparse_def find_objects_example candidate_entry_def
        match_to_dict_def re_search_example_parents re_search_children_example
        re_search_children_example_first no_match_update_def flag keys dict_update_def)
qed

theorem section_property_autoparse_ambiguous_child_witness:
  "\<exists>e0 e1 items' log'.
     section_property_autoparse example_compile example_parser_full
       (ParentRegex (RPat pat_interface))
       ([RPat pat_description] @ RPat pat_ip # [RPat pat_hostname]) False =
       (Inr (Some [Entry e0, Entry e1]),
        [(DEBUG, ''Matched lines for query''), (WARNING, ''Multiple possible updates found'')]) \<and>
     e0 ''ip'' = Some (Some ''10.0.0.1 255.255.255.0'') \<and> e1 ''ip'' = None \<and>
     fst (candidate_entry example_compile example_parser_full (ParentRegex (RPat pat_interface))
            ([RPat pat_description] @ [RPat pat_hostname]) line_eth1) = Inr e1 \<and>
     section_property_autoparse example_compile example_parser_full
       (ParentRegex (RPat pat_interface))
       ([RPat pat_description] @ [RPat pat_hostname]) False = (Inr (Some items'), log') \<and>
     length items' = 2 \<and> items' ! 1 = Entry e1"
proof -
  from section_property_autoparse_example obtain e0 e1 where
    call: "section_property_autoparse example_compile example_parser_full
       (ParentRegex (RPat pat_interface))
       ([RPat pat_description] @ RPat pat_ip # [RPat pat_hostname]) False =
       (Inr (Some [Entry e0, Entry e1]),
        [(DEBUG, ''Matched lines for query''), (WARNING, ''Multiple possible updates found'')])"
    and ip: "e0 ''ip'' = Some (Some ''10.0.0.1 255.255.255.0'')" "e1 ''ip'' = None"
    by blast
  have i: "(1::nat) < length [PLine line_eth0, PLine line_eth1]"
    by simp
  have c: "[PLine line_eth0, PLine line_eth1] ! 1 = PLine line_eth1"
    by simp
  have amb: "1 < length (re_search_children example_compile line_eth1 (RPat pat_ip) (GStr ''ALL''))"
    by (simp add: re_search_children_example)
  from section_property_autoparse_ambiguous_child [OF example_candidates i c amb call]
  obtain items e items' log' where
    "Some [Entry e0, Entry e1] = Some items"
    "items ! 1 = (if False then LineEntry line_eth1 e else Entry e)"
    "fst (candidate_entry example_compile example_parser_full (ParentRegex (RPat pat_interface))
            ([RPat pat_description] @ [RPat pat_hostname]) line_eth1) = Inr e"
    "section_property_autoparse example_compile example_parser_full
       (ParentRegex (RPat pat_interface))
       ([RPat pat_description] @ [RPat pat_hostname]) False = (Inr (Some items'), log')"
    "length items' = length [PLine line_eth0, PLine line_eth1]"
    "items' ! 1 = items ! 1"
    by blast
  with call ip show ?thesis by auto
qed

end
